theory Spec2Isabelle
  imports Complex_Main "HOL-Library.Sublist"
begin


section \<open>Strings\<close>

text \<open>
  A string is a list of code units; \<^typ>\<open>char\<close> covers the code units U+0000 to U+00FF.
  On that range \<^verbatim>\<open>toLowerCase\<close> maps A-Z and the Latin-1 capitals (U+00C0 to U+00DE
  without the multiplication sign U+00D7) 32 places up and leaves every other unit alone,
  and the white space of \<^verbatim>\<open>\s\<close> and of \<^verbatim>\<open>trim\<close> is TAB, LF, VT, FF, CR, SPACE and
  NBSP.
\<close>

definition lowerChar :: "char \<Rightarrow> char" where
  "lowerChar c =
     (let n = (of_char c :: nat)
      in if (65 \<le> n \<and> n \<le> 90) \<or> (192 \<le> n \<and> n \<le> 222 \<and> n \<noteq> 215)
         then char_of (n + 32) else c)"

definition toLowerCase :: "string \<Rightarrow> string" where
  "toLowerCase s = map lowerChar s"

definition isSpace :: "char \<Rightarrow> bool" where
  "isSpace c = ((of_char c :: nat) \<in> {9, 10, 11, 12, 13, 32, 160})"

text \<open>\<^verbatim>\<open>s.includes(t)\<close>: \<open>t\<close> occurs in \<open>s\<close> as a contiguous run.\<close>

fun str_includes :: "string \<Rightarrow> string \<Rightarrow> bool" where
  "str_includes [] t = (t = [])"
| "str_includes (c # s) t = (prefix t (c # s) \<or> str_includes s t)"

definition startsWith :: "string \<Rightarrow> string \<Rightarrow> bool" where
  "startsWith s k = prefix k s"

text \<open>
  \<^verbatim>\<open>s.split(/\s+/)\<close>: the pieces between the maximal runs of white space; a run at
  either end leaves an empty piece there, and the empty string gives one empty piece.
\<close>

function splitWhitespace :: "string \<Rightarrow> string list" where
  "splitWhitespace s =
     (let piece = takeWhile (\<lambda>c. \<not> isSpace c) s;
          rest = dropWhile (\<lambda>c. \<not> isSpace c) s
      in if rest = [] then [piece]
         else piece # splitWhitespace (dropWhile isSpace rest))"
  by pat_completeness auto
termination
proof (relation "measure length")
  show "wf (measure length)" by simp
next
  fix s :: string and piece rest
  assume r: "rest = dropWhile (\<lambda>c. \<not> isSpace c) s" and ne: "rest \<noteq> []"
  from ne obtain c cs where rc: "rest = c # cs" by (cases rest) auto
  have ne': "dropWhile (\<lambda>c. \<not> isSpace c) s \<noteq> []" using ne r by blast
  have "\<not> \<not> isSpace (hd (dropWhile (\<lambda>c. \<not> isSpace c) s))"
    by (rule hd_dropWhile [OF ne'])
  then have "isSpace c" using r rc by (metis list.sel(1))
  then have "dropWhile isSpace rest = dropWhile isSpace cs" using rc by simp
  then have "length (dropWhile isSpace rest) \<le> length cs"
    by (simp add: length_dropWhile_le)
  also have "length cs < length rest" using rc by simp
  also have "length rest \<le> length s" using r by (simp add: length_dropWhile_le)
  finally show "(dropWhile isSpace rest, s) \<in> measure length" by simp
qed

declare splitWhitespace.simps [simp del]

section \<open>The knowledge graph\<close>

record entity =
  name :: string
  entityType :: string
  observations :: "string list"

text \<open>
  The fields \<^verbatim>\<open>from\<close> and \<^verbatim>\<open>to\<close> of a relation are \<open>rel_from\<close> and \<open>rel_to\<close>; its
  optional \<^verbatim>\<open>observations\<close> are \<open>rel_observations\<close>.
\<close>

record relation =
  rel_from :: string
  rel_to :: string
  relationType :: string
  rel_observations :: "string list option"

record knowledge_graph =
  entities :: "entity list"
  relations :: "relation list"

definition validEntityTypes :: "string list" where
  "validEntityTypes =
     [''course'', ''assignment'', ''exam'', ''concept'', ''resource'', ''note'',
      ''lecture'', ''project'', ''question'', ''term'', ''goal'', ''professor'']"

definition isValidEntityType :: "string \<Rightarrow> bool" where
  "isValidEntityType t = (t \<in> set validEntityTypes)"

definition VALID_RELATION_TYPES :: "string list" where
  "VALID_RELATION_TYPES =
     [''enrolled_in'', ''assigned_in'', ''due_on'', ''covers'', ''references'',
      ''prerequisite_for'', ''taught_by'', ''scheduled_for'', ''contains'', ''requires'',
      ''related_to'', ''created_for'', ''studies'', ''helps_with'', ''submitted'',
      ''part_of'', ''included_in'', ''follows'', ''attends'', ''graded_with'']"

text \<open>
  Every \<^verbatim>\<open>throw new Error(...)\<close> of the source is one constructor, with the values its
  message names; \<open>InvalidTimeValue\<close> is the \<^verbatim>\<open>RangeError\<close> that \<^verbatim>\<open>toISOString\<close> throws
  for an invalid \<^verbatim>\<open>Date\<close>.
\<close>

datatype error =
    EntityAlreadyExists string
  | InvalidEntityType string
  | EntityNotFound string
  | InvalidRelationType string
  | RelationAlreadyExists string string string
  | TermNotFound string
  | CourseNotFound string
  | ConceptNotFound string
  | UnknownStage string
  | SessionNotFound string
  | InvalidTimeValue

subsection \<open>Graph store\<close>

text \<open>
  Each operation loads the whole graph, works on it and saves it. The stored graph is passed
  in; an operation that throws has not saved, so the stored graph stays as it was
  (\<open>Inl\<close>), and otherwise the graph it saved is returned (\<open>Inr\<close>).
\<close>

fun checkNewEntities :: "knowledge_graph \<Rightarrow> entity list \<Rightarrow> error option" where
  "checkNewEntities graph [] = None"
| "checkNewEntities graph (e # es) =
     (if \<exists>x \<in> set (entities graph). name x = name e then Some (EntityAlreadyExists (name e))
      else if \<not> isValidEntityType (entityType e) then Some (InvalidEntityType (entityType e))
      else checkNewEntities graph es)"

definition createEntities :: "knowledge_graph \<Rightarrow> entity list \<Rightarrow> error + knowledge_graph" where
  "createEntities graph es =
     (case checkNewEntities graph es of
        Some err \<Rightarrow> Inl err
      | None \<Rightarrow> Inr (graph\<lparr>entities := entities graph @ es\<rparr>))"

definition sameTriple :: "relation \<Rightarrow> relation \<Rightarrow> bool" where
  "sameTriple r s =
     (rel_from r = rel_from s \<and> rel_to r = rel_to s \<and> relationType r = relationType s)"

fun checkNewRelations :: "knowledge_graph \<Rightarrow> relation list \<Rightarrow> error option" where
  "checkNewRelations graph [] = None"
| "checkNewRelations graph (r # rs) =
     (if \<not> (\<exists>e \<in> set (entities graph). name e = rel_from r) then Some (EntityNotFound (rel_from r))
      else if \<not> (\<exists>e \<in> set (entities graph). name e = rel_to r) then Some (EntityNotFound (rel_to r))
      else if relationType r \<notin> set VALID_RELATION_TYPES then Some (InvalidRelationType (relationType r))
      else if \<exists>s \<in> set (relations graph). sameTriple s r
        then Some (RelationAlreadyExists (rel_from r) (rel_to r) (relationType r))
      else checkNewRelations graph rs)"

definition createRelations :: "knowledge_graph \<Rightarrow> relation list \<Rightarrow> error + knowledge_graph" where
  "createRelations graph rs =
     (case checkNewRelations graph rs of
        Some err \<Rightarrow> Inl err
      | None \<Rightarrow> Inr (graph\<lparr>relations := relations graph @ rs\<rparr>))"

definition deleteEntities :: "knowledge_graph \<Rightarrow> string list \<Rightarrow> knowledge_graph" where
  "deleteEntities graph entityNames =
     graph\<lparr>entities := filter (\<lambda>e. name e \<notin> set entityNames) (entities graph),
           relations := filter (\<lambda>r. rel_from r \<notin> set entityNames \<and> rel_to r \<notin> set entityNames)
                          (relations graph)\<rparr>"

fun addTo :: "string \<Rightarrow> string list \<Rightarrow> entity list \<Rightarrow> entity list" where
  "addTo entityName obs [] = []"
| "addTo entityName obs (e # es) =
     (if name e = entityName then e\<lparr>observations := observations e @ obs\<rparr> # es
      else e # addTo entityName obs es)"

definition addObservations ::
  "knowledge_graph \<Rightarrow> string \<Rightarrow> string list \<Rightarrow> error + knowledge_graph" where
  "addObservations graph entityName obs =
     (if \<exists>e \<in> set (entities graph). name e = entityName
      then Inr (graph\<lparr>entities := addTo entityName obs (entities graph)\<rparr>)
      else Inl (EntityNotFound entityName))"

fun removeFrom :: "string \<Rightarrow> string list \<Rightarrow> entity list \<Rightarrow> entity list" where
  "removeFrom entityName obs [] = []"
| "removeFrom entityName obs (e # es) =
     (if name e = entityName
      then e\<lparr>observations := filter (\<lambda>x. x \<notin> set obs) (observations e)\<rparr> # es
      else e # removeFrom entityName obs es)"

definition deleteObservations ::
  "knowledge_graph \<Rightarrow> (string \<times> string list) list \<Rightarrow> knowledge_graph" where
  "deleteObservations graph deletions =
     graph\<lparr>entities := fold (\<lambda>(entityName, obs). removeFrom entityName obs) deletions (entities graph)\<rparr>"

definition deleteRelations :: "knowledge_graph \<Rightarrow> relation list \<Rightarrow> knowledge_graph" where
  "deleteRelations graph rs =
     graph\<lparr>relations := filter (\<lambda>r. \<not> (\<exists>toDelete \<in> set rs. sameTriple r toDelete)) (relations graph)\<rparr>"

definition readGraph :: "knowledge_graph \<Rightarrow> knowledge_graph" where
  "readGraph graph = graph"

definition termMatches :: "entity \<Rightarrow> string \<Rightarrow> bool" where
  "termMatches e t =
     (if str_includes (toLowerCase (name e)) t then True
      else if str_includes (toLowerCase (entityType e)) t then True
      else \<exists>obs \<in> set (observations e). str_includes (toLowerCase obs) t)"

definition matchesAllTerms :: "string list \<Rightarrow> entity \<Rightarrow> bool" where
  "matchesAllTerms terms e = (\<forall>t \<in> set terms. termMatches e t)"

definition searchNodes :: "knowledge_graph \<Rightarrow> string \<Rightarrow> knowledge_graph" where
  "searchNodes graph query =
     (let terms = splitWhitespace (toLowerCase query);
          matchingEntityNames = set (map name (filter (matchesAllTerms terms) (entities graph)));
          matchingRelations =
            filter (\<lambda>r. rel_from r \<in> matchingEntityNames \<and> rel_to r \<in> matchingEntityNames)
              (relations graph)
      in \<lparr>entities = filter (\<lambda>e. name e \<in> matchingEntityNames) (entities graph),
          relations = matchingRelations\<rparr>)"


subsection \<open>Related concepts\<close>

definition findEntity :: "knowledge_graph \<Rightarrow> string \<Rightarrow> string \<Rightarrow> entity option" where
  "findEntity graph n t = find (\<lambda>e. name e = n \<and> entityType e = t) (entities graph)"

record queue_item =
  qname :: string
  currentDepth :: int
  path :: "string list"

record related_concept =
  concept :: entity
  relationPath :: "string list"
  depth :: int
  courses :: "entity list"
  resources :: "entity list"

text \<open>
  The two inner loops over the relations differ in the relation type they follow and in the
  text they add to the path: each gives, for one relation, the next concept and that text,
  or nothing (\<^verbatim>\<open>nextConcept\<close> stays \<^verbatim>\<open>null\<close>).
\<close>

definition relatedNext :: "string \<Rightarrow> relation \<Rightarrow> (string \<times> string) option" where
  "relatedNext nm r =
     (if relationType r = ''related_to'' then
        (if rel_from r = nm then Some (rel_to r, ''related_to '' @ rel_to r)
         else if rel_to r = nm then Some (rel_from r, ''related_to '' @ rel_from r)
         else None)
      else None)"

definition prerequisiteNext :: "string \<Rightarrow> relation \<Rightarrow> (string \<times> string) option" where
  "prerequisiteNext nm r =
     (if relationType r = ''prerequisite_for'' then
        (if rel_from r = nm then Some (rel_to r, ''prerequisite_for '' @ rel_to r)
         else if rel_to r = nm then Some (rel_from r, rel_from r @ '' is_prerequisite_for this'')
         else None)
      else None)"

text \<open>
  \<^verbatim>\<open>if (nextConcept && !processedConcepts.has(nextConcept))\<close>: the empty name is falsy
  and is never enqueued.
\<close>

fun enqueueAll ::
  "(relation \<Rightarrow> (string \<times> string) option) \<Rightarrow> queue_item \<Rightarrow> relation list \<Rightarrow>
   queue_item list \<times> string set \<Rightarrow> queue_item list \<times> string set" where
  "enqueueAll nxt cur [] st = st"
| "enqueueAll nxt cur (r # rs) (queue, processedConcepts) =
     (case nxt r of
        None \<Rightarrow> enqueueAll nxt cur rs (queue, processedConcepts)
      | Some (nextConcept, description) \<Rightarrow>
          if nextConcept \<noteq> [] \<and> nextConcept \<notin> processedConcepts
          then enqueueAll nxt cur rs
                 (queue @ [\<lparr>qname = nextConcept, currentDepth = currentDepth cur + 1,
                            path = path cur @ [description]\<rparr>],
                  insert nextConcept processedConcepts)
          else enqueueAll nxt cur rs (queue, processedConcepts))"

definition enqueueNeighbours ::
  "knowledge_graph \<Rightarrow> queue_item \<Rightarrow> queue_item list \<times> string set \<Rightarrow> queue_item list \<times> string set" where
  "enqueueNeighbours graph cur st =
     enqueueAll (prerequisiteNext (qname cur)) cur (relations graph)
       (enqueueAll (relatedNext (qname cur)) cur (relations graph) st)"

definition linkedEntities ::
  "knowledge_graph \<Rightarrow> string \<Rightarrow> string \<Rightarrow> string \<Rightarrow> entity list" where
  "linkedEntities graph relType target t =
     List.map_filter
       (\<lambda>r. if relationType r = relType \<and> rel_to r = target
            then findEntity graph (rel_from r) t else None)
       (relations graph)"

definition relationNames :: "knowledge_graph \<Rightarrow> string set" where
  "relationNames graph = set (map rel_from (relations graph)) \<union> set (map rel_to (relations graph))"

definition relatedRecord :: "knowledge_graph \<Rightarrow> queue_item \<Rightarrow> entity \<Rightarrow> related_concept" where
  "relatedRecord graph cur currentConcept =
     \<lparr>concept = currentConcept, relationPath = path cur, depth = currentDepth cur,
      courses = linkedEntities graph ''covers'' (qname cur) ''course'',
      resources = linkedEntities graph ''helps_with'' (qname cur) ''resource''\<rparr>"

function processQueue ::
  "knowledge_graph \<Rightarrow> string \<Rightarrow> int \<Rightarrow> queue_item list \<Rightarrow> string set \<Rightarrow>
   related_concept list \<Rightarrow> related_concept list" where
  "processQueue graph conceptName maxDepth [] processedConcepts relatedConcepts = relatedConcepts"
| "processQueue graph conceptName maxDepth (cur # queue) processedConcepts relatedConcepts =
     (if currentDepth cur > maxDepth \<and> qname cur \<noteq> conceptName
      then processQueue graph conceptName maxDepth queue processedConcepts relatedConcepts
      else case findEntity graph (qname cur) ''concept'' of
        None \<Rightarrow> processQueue graph conceptName maxDepth queue processedConcepts relatedConcepts
      | Some currentConcept \<Rightarrow>
          processQueue graph conceptName maxDepth
            (fst (enqueueNeighbours graph cur (queue, processedConcepts)))
            (snd (enqueueNeighbours graph cur (queue, processedConcepts)))
            (if qname cur \<noteq> conceptName
             then relatedConcepts @
                  [relatedRecord graph cur currentConcept]
             else relatedConcepts))"
  by pat_completeness auto

text \<open>
  Every name that enters the queue is an endpoint of a relation and was not processed
  before, so the number of unprocessed endpoints falls by the number of items added.
\<close>

lemma enqueueAll_measure:
  assumes "\<And>r n d. r \<in> set rs \<Longrightarrow> nxt r = Some (n, d) \<Longrightarrow> n \<in> N" and "finite N"
  shows "length (fst (enqueueAll nxt cur rs (q, p))) + card (N - snd (enqueueAll nxt cur rs (q, p)))
         = length q + card (N - p)"
  using assms
proof (induction rs arbitrary: q p)
  case Nil
  then show ?case by simp
next
  case (Cons r rs)
  have IH: "length (fst (enqueueAll nxt cur rs (q', p'))) + card (N - snd (enqueueAll nxt cur rs (q', p')))
            = length q' + card (N - p')" for q' p'
    by (rule Cons.IH) (use Cons.prems in auto)
  show ?case
  proof (cases "nxt r")
    case None
    then show ?thesis using IH by simp
  next
    case (Some a)
    obtain n d where a: "a = (n, d)" by (cases a)
    show ?thesis
    proof (cases "n \<noteq> [] \<and> n \<notin> p")
      case True
      have nN: "n \<in> N" using Cons.prems(1) [of r n d] Some a by simp
      then have "n \<in> N - p" using True by simp
      then have "card (N - insert n p) + 1 = card (N - p)"
        using \<open>finite N\<close>
        by (metis Diff_insert Suc_eq_plus1 card_Suc_Diff1 finite_Diff)
      then show ?thesis using Some a True IH by simp
    next
      case False
      then show ?thesis using Some a IH by auto
    qed
  qed
qed

lemma relatedNext_names:
  "r \<in> set (relations graph) \<Longrightarrow> relatedNext nm r = Some (n, d) \<Longrightarrow> n \<in> relationNames graph"
  by (auto simp: relatedNext_def relationNames_def split: if_splits)

lemma prerequisiteNext_names:
  "r \<in> set (relations graph) \<Longrightarrow> prerequisiteNext nm r = Some (n, d) \<Longrightarrow> n \<in> relationNames graph"
  by (auto simp: prerequisiteNext_def relationNames_def split: if_splits)

lemma enqueueNeighbours_measure:
  "length (fst (enqueueNeighbours graph cur (q, p)))
     + card (relationNames graph - snd (enqueueNeighbours graph cur (q, p)))
   = length q + card (relationNames graph - p)"
proof -
  have fin: "finite (relationNames graph)" by (simp add: relationNames_def)
  obtain q1 p1 where s1: "enqueueAll (relatedNext (qname cur)) cur (relations graph) (q, p) = (q1, p1)"
    by (cases "enqueueAll (relatedNext (qname cur)) cur (relations graph) (q, p)")
  have m1: "length q1 + card (relationNames graph - p1) = length q + card (relationNames graph - p)"
    using enqueueAll_measure [of "relations graph" "relatedNext (qname cur)" "relationNames graph" cur q p]
      relatedNext_names fin s1 by auto
  have "length (fst (enqueueAll (prerequisiteNext (qname cur)) cur (relations graph) (q1, p1)))
        + card (relationNames graph - snd (enqueueAll (prerequisiteNext (qname cur)) cur (relations graph) (q1, p1)))
        = length q1 + card (relationNames graph - p1)"
    using enqueueAll_measure [of "relations graph" "prerequisiteNext (qname cur)" "relationNames graph" cur q1 p1]
      prerequisiteNext_names fin by auto
  then show ?thesis using m1 s1 by (simp add: enqueueNeighbours_def)
qed

termination processQueue
proof (relation "measure (\<lambda>(graph, conceptName, maxDepth, queue, processedConcepts, relatedConcepts).
          length queue + card (relationNames graph - processedConcepts))")
  show "wf (measure (\<lambda>(graph, conceptName, maxDepth, queue, processedConcepts, relatedConcepts).
          length queue + card (relationNames graph - processedConcepts)))"
    by simp
next
  fix graph :: knowledge_graph and conceptName :: string and maxDepth :: int
    and cur :: queue_item and queue :: "queue_item list" and processedConcepts :: "string set"
    and relatedConcepts :: "related_concept list" and x2 :: entity
  show "((graph, conceptName, maxDepth,
          fst (enqueueNeighbours graph cur (queue, processedConcepts)),
          snd (enqueueNeighbours graph cur (queue, processedConcepts)),
          if qname cur \<noteq> conceptName
          then relatedConcepts @
               [relatedRecord graph cur x2]
          else relatedConcepts),
         graph, conceptName, maxDepth, cur # queue, processedConcepts, relatedConcepts)
        \<in> measure (\<lambda>(graph, conceptName, maxDepth, queue, processedConcepts, relatedConcepts).
          length queue + card (relationNames graph - processedConcepts))"
    using enqueueNeighbours_measure [of graph cur queue processedConcepts] by simp
qed simp_all

declare processQueue.simps [simp del]

text \<open>
  \<^verbatim>\<open>relatedConcepts.sort((a, b) => a.depth - b.depth)\<close> is a stable sort by depth;
  \<^const>\<open>sort_key\<close> is the stable insertion sort.
\<close>

text \<open>
  Two names are directly linked when a \<open>related_to\<close> or \<open>prerequisite_for\<close> relation
  joins them, in either direction: these are the relations the traversal follows.
\<close>

definition directlyLinked :: "knowledge_graph \<Rightarrow> string \<Rightarrow> string \<Rightarrow> bool" where
  "directlyLinked graph a b =
     (\<exists>r \<in> set (relations graph).
        (relationType r = ''related_to'' \<or> relationType r = ''prerequisite_for'') \<and>
        ((rel_from r = a \<and> rel_to r = b) \<or> (rel_from r = b \<and> rel_to r = a)))"

text \<open>The name of the concept a result entry is about.\<close>

definition cname :: "related_concept \<Rightarrow> string" where
  "cname r = name (concept r)"

definition seedItem :: "string \<Rightarrow> queue_item" where
  "seedItem conceptName = \<lparr>qname = conceptName, currentDepth = 0, path = []\<rparr>"

record related_result =
  rr_concept :: entity
  relatedConcepts :: "related_concept list"
  totalRelated :: nat
  summaryMaxDepth :: int

definition findRelatedConcepts ::
  "knowledge_graph \<Rightarrow> string \<Rightarrow> int \<Rightarrow> error + related_result" where
  "findRelatedConcepts graph conceptName maxDepth =
     (case findEntity graph conceptName ''concept'' of
        None \<Rightarrow> Inl (ConceptNotFound conceptName)
      | Some c \<Rightarrow>
          (let found = processQueue graph conceptName maxDepth
                         [seedItem conceptName] {conceptName} [];
               sorted = sort_key depth found
           in Inr \<lparr>rr_concept = c, relatedConcepts = sorted,
                   totalRelated = length sorted, summaryMaxDepth = maxDepth\<rparr>))"

subsection \<open>Upcoming deadlines\<close>

text \<open>
  What the query takes from the JavaScript runtime: the time of \<^verbatim>\<open>new Date()\<close> in
  milliseconds, the time \<^verbatim>\<open>setDate(getDate() + daysAhead)\<close> moves it to, the time a date
  string parses to (nothing for an invalid date, which every comparison rejects), and the
  first ten characters of \<^verbatim>\<open>toISOString()\<close>.
\<close>

record clock =
  now :: int
  endOfWindow :: "int \<Rightarrow> int"
  parseDate :: "string \<Rightarrow> int option"
  isoDate :: "int \<Rightarrow> string"

definition trim :: "string \<Rightarrow> string" where
  "trim s = rev (dropWhile isSpace (rev (dropWhile isSpace s)))"

text \<open>
  \<^verbatim>\<open>obs.split(':')[1]\<close>, for an observation that starts with its key and a colon: the text
  between the first colon and the second, or the end.
\<close>

definition colonField :: "string \<Rightarrow> string" where
  "colonField s = takeWhile (\<lambda>c. c \<noteq> CHR '':'') (drop 1 (dropWhile (\<lambda>c. c \<noteq> CHR '':'') s))"

record deadline =
  entity :: entity
  dueDate :: int
  course :: entity
  daysRemaining :: int

text \<open>
  The time value of a valid \<^verbatim>\<open>Date\<close> is an integer of at most 8.64e15 in absolute value;
  every comparison with an invalid \<^verbatim>\<open>Date\<close> is false.
\<close>

definition maxTime :: int where
  "maxTime = 8640000000000000"

definition validTime :: "int \<Rightarrow> bool" where
  "validTime t = (\<bar>t\<bar> \<le> maxTime)"

text \<open>
  \<^verbatim>\<open>dueDate.getTime() - today.getTime()\<close> is a subtraction of doubles. The difference of
  two valid time values is below \<open>2^54\<close> in absolute value: up to \<open>2^53\<close> it is exact, and
  beyond that it is rounded to the nearest even integer, to the multiple of 4 when it lies
  half way (round to nearest, ties to even).
\<close>

definition toDouble :: "int \<Rightarrow> int" where
  "toDouble x =
     (if \<bar>x\<bar> \<le> 9007199254740992 then x
      else if even x then x
      else if (x - 1) mod 4 = 0 then x - 1
      else x + 1)"

text \<open>
  \<^verbatim>\<open>Math.ceil((dueDate.getTime() - today.getTime()) / (1000 * 60 * 60 * 24))\<close>. The
  quotient of the rounded difference by 86,400,000 is rounded to a double again; that
  rounding never reaches the integer below (the quotient of an integer up to \<open>2^53\<close>, or
  of an even integer up to \<open>2^54\<close>, is an integer or at least 1/86,400,000, respectively
  2/86,400,000, above one, more than half the spacing of the doubles there), so the ceiling
  is the ceiling of the exact quotient of the rounded difference.
\<close>

definition msPerDay :: int where
  "msPerDay = 1000 * 60 * 60 * 24"

definition ceilDays :: "int \<Rightarrow> int \<Rightarrow> int" where
  "ceilDays due today = - ((- toDouble (due - today)) div msPerDay)"

definition datedDeadline ::
  "clock \<Rightarrow> int \<Rightarrow> int \<Rightarrow> entity \<Rightarrow> string \<Rightarrow> entity \<Rightarrow> deadline option" where
  "datedDeadline clk today endDate crs key e =
     (case find (\<lambda>obs. startsWith obs key) (observations e) of
        None \<Rightarrow> None
      | Some dateObs \<Rightarrow>
          (case parseDate clk (trim (colonField dateObs)) of
             None \<Rightarrow> None
           | Some due \<Rightarrow>
               if validTime today \<and> validTime endDate \<and> validTime due
                  \<and> due \<ge> today \<and> due \<le> endDate
               then Some \<lparr>entity = e, dueDate = due, course = crs,
                          daysRemaining = ceilDays due today\<rparr>
               else None))"

definition courseDeadlines ::
  "knowledge_graph \<Rightarrow> clock \<Rightarrow> int \<Rightarrow> int \<Rightarrow> entity \<Rightarrow> deadline list" where
  "courseDeadlines graph clk today endDate crs =
     List.map_filter
       (\<lambda>r. if relationType r = ''assigned_in'' \<and> rel_to r = name crs
            then (case findEntity graph (rel_from r) ''assignment'' of
                    None \<Rightarrow> None
                  | Some assignment \<Rightarrow> datedDeadline clk today endDate crs ''Due:'' assignment)
            else None)
       (relations graph)
     @ List.map_filter
       (\<lambda>r. if relationType r = ''scheduled_for'' \<and> rel_from r = name crs
            then (case findEntity graph (rel_to r) ''exam'' of
                    None \<Rightarrow> None
                  | Some exam \<Rightarrow> datedDeadline clk today endDate crs ''Date:'' exam)
            else None)
       (relations graph)"

text \<open>An optional string argument is used when it is given and not empty (\<^verbatim>\<open>if (termName)\<close>).\<close>

definition given :: "string option \<Rightarrow> bool" where
  "given a = (a \<noteq> None \<and> a \<noteq> Some [])"

definition termCourses :: "knowledge_graph \<Rightarrow> string \<Rightarrow> entity list" where
  "termCourses graph termName =
     List.map_filter
       (\<lambda>r. if relationType r = ''part_of'' \<and> rel_from r = rel_to r \<and> rel_to r = termName
            then findEntity graph (rel_from r) ''course'' else None)
       (relations graph)"

record deadlines_result =
  deadlines :: "deadline list"
  startDate :: string
  endDate :: string
  courseFilter :: "string option"
  termFilter :: "string option"
  count :: nat

definition getUpcomingDeadlines ::
  "knowledge_graph \<Rightarrow> clock \<Rightarrow> string option \<Rightarrow> string option \<Rightarrow> int option \<Rightarrow>
   error + deadlines_result" where
  "getUpcomingDeadlines graph clk termName courseName daysAheadArg =
     (let daysAhead = (case daysAheadArg of None \<Rightarrow> 14 | Some d \<Rightarrow> d);
          today = now clk;
          endD = endOfWindow clk daysAhead
      in if given termName \<and> findEntity graph (the termName) ''term'' = None
         then Inl (TermNotFound (the termName))
         else
           (let relevantCourses =
                  (if given termName then termCourses graph (the termName)
                   else filter (\<lambda>e. entityType e = ''course'') (entities graph));
                relevantCourses' =
                  (if given courseName
                   then filter (\<lambda>c. name c = the courseName) relevantCourses
                   else relevantCourses)
            in if given courseName \<and> relevantCourses' = []
               then Inl (CourseNotFound (the courseName))
               else
                 (let found = concat (map (courseDeadlines graph clk today endD) relevantCourses');
                      sorted = sort_key dueDate found
                  in if validTime today \<and> validTime endD
                     then Inr \<lparr>deadlines = sorted, startDate = isoDate clk today,
                             endDate = isoDate clk endD, courseFilter = courseName,
                             termFilter = termName, count = length sorted\<rparr>
                     else Inl InvalidTimeValue)))"

section \<open>Session workflow\<close>

text \<open>
  The payload of a stage is an object with any keys. It is modelled at the shapes the
  source's annotations give, one constructor per shape, each key optional; a key read from
  a payload of another shape is absent. The fields \<^verbatim>\<open>name\<close>, \<^verbatim>\<open>status\<close> and
  \<^verbatim>\<open>description\<close> of an update or a new concept carry the prefix of their record.
\<close>

record assignment_update =
  au_name :: string
  au_status :: string

record new_concept =
  nc_name :: string
  nc_description :: string

text \<open>
  The assembled arguments. The three lists travel as JSON text and are parsed back by the
  final step; the round trip gives the same list, and the text of a list is never empty.
\<close>

record end_session_args =
  args_date :: string
  args_summary :: string
  args_duration :: string
  args_course :: string
  args_conceptsLearned :: "string list"
  args_assignmentUpdates :: "assignment_update list"
  args_courseStatus :: string
  args_courseObservation :: string
  args_newConcepts :: "new_concept list"

datatype stage_data =
    SummaryData "string option" "string option" "string option"
  | ConceptsLearnedData "string list option"
  | AssignmentUpdatesData "assignment_update list option"
  | NewConceptsData "new_concept list option"
  | CourseStatusData "string option" "string option"
  | AssembledArgs end_session_args

record stage_result =
  stage :: string
  stageNumber :: nat
  analysis :: string
  stageData :: stage_data
  completed :: bool

datatype session_item =
    AnalysisStage stage_result
  | ContextLoaded string string string
  | SessionCompleted string string string string

record endsession_params =
  p_sessionId :: string
  p_stage :: string
  p_stageNumber :: nat
  p_totalStages :: nat
  p_analysis :: "string option"
  p_stageData :: "stage_data option"
  p_nextStageNeeded :: bool
  p_isRevision :: "bool option"
  p_revisesStage :: "nat option"

text \<open>The date and the time stamp that \<^verbatim>\<open>new Date().toISOString()\<close> gives.\<close>

record session_env =
  envDate :: string
  envTimestamp :: string

definition orElse :: "string option \<Rightarrow> string \<Rightarrow> string" where
  "orElse a d = (case a of None \<Rightarrow> d | Some s \<Rightarrow> if s = [] then d else s)"

definition findStage :: "session_item list \<Rightarrow> string \<Rightarrow> stage_result option" where
  "findStage stages nm =
     (case find (\<lambda>s. case s of AnalysisStage r \<Rightarrow> stage r = nm | _ \<Rightarrow> False) stages of
        Some (AnalysisStage r) \<Rightarrow> Some r
      | _ \<Rightarrow> None)"

fun summaryOf :: "stage_data \<Rightarrow> string option" where
  "summaryOf (SummaryData s d c) = s"
| "summaryOf _ = None"

fun durationOf :: "stage_data \<Rightarrow> string option" where
  "durationOf (SummaryData s d c) = d"
| "durationOf _ = None"

fun courseOf :: "stage_data \<Rightarrow> string option" where
  "courseOf (SummaryData s d c) = c"
| "courseOf _ = None"

fun learnedOf :: "stage_data \<Rightarrow> string list option" where
  "learnedOf (ConceptsLearnedData cs) = cs"
| "learnedOf _ = None"

fun updatesOf :: "stage_data \<Rightarrow> assignment_update list option" where
  "updatesOf (AssignmentUpdatesData us) = us"
| "updatesOf _ = None"

fun newConceptsOf :: "stage_data \<Rightarrow> new_concept list option" where
  "newConceptsOf (NewConceptsData cs) = cs"
| "newConceptsOf _ = None"

fun courseStatusOf :: "stage_data \<Rightarrow> string option" where
  "courseStatusOf (CourseStatusData s obs) = s"
| "courseStatusOf _ = None"

fun courseObservationOf :: "stage_data \<Rightarrow> string option" where
  "courseObservationOf (CourseStatusData s obs) = obs"
| "courseObservationOf _ = None"

definition stageField :: "session_item list \<Rightarrow> string \<Rightarrow> (stage_data \<Rightarrow> 'a option) \<Rightarrow> 'a option" where
  "stageField stages nm field =
     (case findStage stages nm of None \<Rightarrow> None | Some r \<Rightarrow> field (stageData r))"

definition listOrEmpty :: "'a list option \<Rightarrow> 'a list" where
  "listOrEmpty a = (case a of None \<Rightarrow> [] | Some xs \<Rightarrow> xs)"

definition assembleEndSessionArgs :: "session_env \<Rightarrow> session_item list \<Rightarrow> end_session_args" where
  "assembleEndSessionArgs env stages =
     \<lparr>args_date = envDate env,
      args_summary = orElse (stageField stages ''summary'' summaryOf) [],
      args_duration = orElse (stageField stages ''summary'' durationOf) ''unknown'',
      args_course = orElse (stageField stages ''summary'' courseOf) [],
      args_conceptsLearned = listOrEmpty (stageField stages ''conceptsLearned'' learnedOf),
      args_assignmentUpdates = listOrEmpty (stageField stages ''assignmentUpdates'' updatesOf),
      args_courseStatus = orElse (stageField stages ''courseStatus'' courseStatusOf) [],
      args_courseObservation = orElse (stageField stages ''courseStatus'' courseObservationOf) [],
      args_newConcepts = listOrEmpty (stageField stages ''newConcepts'' newConceptsOf)\<rparr>"

definition stageRecord :: "endsession_params \<Rightarrow> stage_data \<Rightarrow> stage_result" where
  "stageRecord params dflt =
     \<lparr>stage = p_stage params, stageNumber = p_stageNumber params,
      analysis = orElse (p_analysis params) [],
      stageData = (case p_stageData params of None \<Rightarrow> dflt | Some d \<Rightarrow> d),
      completed = (\<not> p_nextStageNeeded params)\<rparr>"

definition processStage ::
  "session_env \<Rightarrow> endsession_params \<Rightarrow> session_item list \<Rightarrow> error + stage_result" where
  "processStage env params previousStages =
     (if p_stage params = ''summary''
        then Inr (stageRecord params (SummaryData (Some []) (Some []) (Some [])))
      else if p_stage params = ''conceptsLearned''
        then Inr (stageRecord params (ConceptsLearnedData (Some [])))
      else if p_stage params = ''assignmentUpdates''
        then Inr (stageRecord params (AssignmentUpdatesData (Some [])))
      else if p_stage params = ''newConcepts''
        then Inr (stageRecord params (NewConceptsData (Some [])))
      else if p_stage params = ''courseStatus''
        then Inr (stageRecord params (CourseStatusData (Some []) (Some [])))
      else if p_stage params = ''assembly''
        then Inr \<lparr>stage = ''assembly'', stageNumber = p_stageNumber params,
                  analysis = ''Final assembly of end-session arguments'',
                  stageData = AssembledArgs (assembleEndSessionArgs env previousStages),
                  completed = True\<rparr>
      else Inl (UnknownStage (p_stage params)))"

subsection \<open>Applying the assembled arguments to the graph\<close>

text \<open>
  Each graph operation saves on its own, so a step that throws leaves the graph as the
  steps before it saved it: a step gives the error, if any, and the stored graph.
\<close>

type_synonym outcome = "error option \<times> knowledge_graph"

definition attempt :: "knowledge_graph \<Rightarrow> error + knowledge_graph \<Rightarrow> outcome" where
  "attempt graph r = (case r of Inl err \<Rightarrow> (Some err, graph) | Inr graph' \<Rightarrow> (None, graph'))"

definition andThen :: "outcome \<Rightarrow> (knowledge_graph \<Rightarrow> outcome) \<Rightarrow> outcome" where
  "andThen r f = (case r of (Some err, graph) \<Rightarrow> (Some err, graph) | (None, graph) \<Rightarrow> f graph)"

function showNat :: "nat \<Rightarrow> string" where
  "showNat n = (if n < 10 then [char_of (48 + n)] else showNat (n div 10) @ [char_of (48 + n mod 10)])"
  by pat_completeness auto
termination
  by (relation "measure id") auto

declare showNat.simps [simp del]

definition mkRelation :: "string \<Rightarrow> string \<Rightarrow> string \<Rightarrow> relation" where
  "mkRelation f t ty = \<lparr>rel_from = f, rel_to = t, relationType = ty, rel_observations = None\<rparr>"

definition learnedConceptEntities :: "string \<Rightarrow> string list \<Rightarrow> entity list" where
  "learnedConceptEntities date conceptsLearned =
     map (\<lambda>(i, c). \<lparr>name = ''Concept_'' @ filter (\<lambda>ch. ch \<noteq> CHR ''-'') date @ ''_'' @ showNat (i + 1),
                    entityType = ''concept'', observations = [c]\<rparr>)
       (enumerate 0 conceptsLearned)"

definition createLearnedConcepts :: "string \<Rightarrow> string \<Rightarrow> string list \<Rightarrow> knowledge_graph \<Rightarrow> outcome" where
  "createLearnedConcepts date crs conceptsLearned graph =
     (let conceptEntities = learnedConceptEntities date conceptsLearned
      in if conceptEntities \<noteq> []
         then andThen (attempt graph (createEntities graph conceptEntities))
                (\<lambda>g. attempt g (createRelations g
                        (map (\<lambda>c. mkRelation crs (name c) ''contains'') conceptEntities)))
         else (None, graph))"

definition updateAssignment :: "string \<Rightarrow> assignment_update \<Rightarrow> knowledge_graph \<Rightarrow> outcome" where
  "updateAssignment crs assignment graph =
     (case entities (searchNodes graph (''name:'' @ au_name assignment)) of
        [] \<Rightarrow> (None, graph)
      | assignmentEntity # _ \<Rightarrow>
          (let obs = filter (\<lambda>obs. \<not> startsWith obs ''status:'') (observations assignmentEntity)
                     @ [''status:'' @ au_status assignment];
               deleted = deleteEntities graph [au_name assignment]
           in andThen
                (attempt deleted (createEntities deleted
                   [\<lparr>name = au_name assignment, entityType = ''assignment'', observations = obs\<rparr>]))
                (\<lambda>g. if au_status assignment = ''completed''
                     then attempt g (createRelations g
                            [mkRelation crs (au_name assignment) ''created_for''])
                     else (None, g))))"

fun updateAssignments :: "string \<Rightarrow> assignment_update list \<Rightarrow> knowledge_graph \<Rightarrow> outcome" where
  "updateAssignments crs [] graph = (None, graph)"
| "updateAssignments crs (a # rest) graph =
     andThen (updateAssignment crs a graph) (updateAssignments crs rest)"

definition updateCourse :: "end_session_args \<Rightarrow> knowledge_graph \<Rightarrow> outcome" where
  "updateCourse args graph =
     (case entities (searchNodes graph (''name:'' @ args_course args)) of
        [] \<Rightarrow> (None, graph)
      | courseEntity # _ \<Rightarrow>
          (let obs = filter (\<lambda>obs. \<not> startsWith obs ''status:'' \<and> \<not> startsWith obs ''updated:'')
                       (observations courseEntity)
                     @ [''status:'' @ args_courseStatus args]
                     @ [''updated:'' @ args_date args]
                     @ (if args_courseObservation args \<noteq> [] then [args_courseObservation args] else []);
               deleted = deleteEntities graph [args_course args]
           in attempt deleted (createEntities deleted
                [\<lparr>name = args_course args, entityType = ''course'', observations = obs\<rparr>])))"

definition createNewConcepts :: "end_session_args \<Rightarrow> knowledge_graph \<Rightarrow> outcome" where
  "createNewConcepts args graph =
     (if args_newConcepts args \<noteq> []
      then (let newConceptEntities =
                  map (\<lambda>c. \<lparr>name = nc_name c, entityType = ''concept'',
                            observations = [nc_description c, ''last_studied:'' @ args_date args]\<rparr>)
                    (args_newConcepts args)
            in andThen (attempt graph (createEntities graph newConceptEntities))
                 (\<lambda>g. attempt g (createRelations g
                         (map (\<lambda>c. mkRelation (args_course args) (name c) ''contains'')
                            newConceptEntities))))
      else (None, graph))"

definition recordSession :: "end_session_args \<Rightarrow> knowledge_graph \<Rightarrow> outcome" where
  "recordSession args graph =
     andThen
       (andThen
          (andThen
             (createLearnedConcepts (args_date args) (args_course args) (args_conceptsLearned args) graph)
             (updateAssignments (args_course args) (args_assignmentUpdates args)))
          (updateCourse args))
       (createNewConcepts args)"

subsection \<open>The end-session operation\<close>

datatype response =
    Failure error
  | RecordingFailure error
  | StageAccepted stage_result
  | SessionRecorded stage_result

type_synonym session_states = "string \<rightharpoonup> session_item list"

definition isAnalysisStage :: "session_item \<Rightarrow> bool" where
  "isAnalysisStage item = (case item of AnalysisStage r \<Rightarrow> True | _ \<Rightarrow> False)"

definition storeStage :: "endsession_params \<Rightarrow> stage_result \<Rightarrow> session_item list \<Rightarrow> session_item list" where
  "storeStage params stageResult sessionState =
     (case (p_isRevision params, p_revisesStage params) of
        (Some True, Some (Suc k)) \<Rightarrow>
          (let analysisStages = filter isAnalysisStage sessionState;
               analysisStages' =
                 (if Suc k \<le> length analysisStages
                  then analysisStages[k := AnalysisStage stageResult]
                  else analysisStages @ [AnalysisStage stageResult])
           in filter (\<lambda>item. \<not> isAnalysisStage item) sessionState @ analysisStages')
      | _ \<Rightarrow> sessionState @ [AnalysisStage stageResult])"

text \<open>
  The handler: an unknown session id is answered at once; a stage that \<open>processStage\<close>
  rejects is answered by the outer \<^verbatim>\<open>catch\<close> before anything is stored; otherwise the
  stage is stored and, for a final assembly stage, its assembled arguments are applied to
  the graph. The record of an assembly stage always carries assembled arguments, so the
  last case of the payload does not occur there.
\<close>

definition endsession ::
  "session_env \<Rightarrow> endsession_params \<Rightarrow> session_states \<times> knowledge_graph \<Rightarrow>
   response \<times> session_states \<times> knowledge_graph" where
  "endsession env params st =
     (case st of (sessionStates, graph) \<Rightarrow>
       (case sessionStates (p_sessionId params) of
          None \<Rightarrow> (Failure (SessionNotFound (p_sessionId params)), sessionStates, graph)
        | Some sessionState \<Rightarrow>
            (case processStage env params sessionState of
               Inl err \<Rightarrow> (Failure err, sessionStates, graph)
             | Inr stageResult \<Rightarrow>
                 (let sessionState' = storeStage params stageResult sessionState;
                      sessionStates' = sessionStates(p_sessionId params \<mapsto> sessionState')
                  in if p_stage params = ''assembly'' \<and> \<not> p_nextStageNeeded params
                     then (case stageData stageResult of
                             AssembledArgs args \<Rightarrow>
                               (case recordSession args graph of
                                  (Some err, graph') \<Rightarrow> (RecordingFailure err, sessionStates', graph')
                                | (None, graph') \<Rightarrow>
                                    (SessionRecorded stageResult,
                                     sessionStates'(p_sessionId params \<mapsto>
                                       sessionState' @
                                       [SessionCompleted (envTimestamp env) (args_date args)
                                          (args_summary args) (args_course args)]),
                                     graph'))
                           | _ \<Rightarrow> (StageAccepted stageResult, sessionStates', graph))
                     else (StageAccepted stageResult, sessionStates', graph)))))"

section \<open>Example data\<close>

definition mkEntity :: "string \<Rightarrow> string \<Rightarrow> string list \<Rightarrow> entity" where
  "mkEntity n t obs = \<lparr>name = n, entityType = t, observations = obs\<rparr>"

definition physicsGraph :: knowledge_graph where
  "physicsGraph =
     \<lparr>entities =
        [mkEntity ''Physics 101'' ''course'' [''Code: PHY101''],
         mkEntity ''Midterm'' ''exam'' [''Covers physics of motion'', ''Date: 2025-01-10''],
         mkEntity ''HW1'' ''assignment'' [''status:not_started'', ''Due: 2025-01-10'']],
      relations =
        [mkRelation ''Physics 101'' ''Midterm'' ''scheduled_for'',
         mkRelation ''HW1'' ''Physics 101'' ''assigned_in'']\<rparr>"

text \<open>
  A clock at 2025-01-05T00:00:00Z, whose window ends whole days later and which parses the
  one date string of the example graph (2025-01-10T00:00:00Z).
\<close>

definition exampleClock :: clock where
  "exampleClock =
     \<lparr>now = 1736035200000,
      endOfWindow = (\<lambda>daysAhead. 1736035200000 + daysAhead * 86400000),
      parseDate = (\<lambda>s. if s = ''2025-01-10'' then Some 1736467200000 else None),
      isoDate = (\<lambda>t. if t = 1736035200000 then ''2025-01-05'' else ''2025-01-19'')\<rparr>"

text \<open>The example graph with a term that its course is part of.\<close>

definition termGraph :: knowledge_graph where
  "termGraph =
     \<lparr>entities = entities physicsGraph @ [mkEntity ''Spring 2025'' ''term'' []],
      relations = relations physicsGraph @ [mkRelation ''Physics 101'' ''Spring 2025'' ''part_of'']\<rparr>"

text \<open>
  A session that has recorded a summary for the course of the example graph and one
  assignment update, and the call that sends its assembly stage.
\<close>

definition exampleSession :: "session_item list" where
  "exampleSession =
     [AnalysisStage \<lparr>stage = ''summary'', stageNumber = 1, analysis = [],
        stageData = SummaryData (Some ''Worked on homework'') (Some ''1 hour'') (Some ''Physics 101''),
        completed = False\<rparr>,
      AnalysisStage \<lparr>stage = ''assignmentUpdates'', stageNumber = 2, analysis = [],
        stageData = AssignmentUpdatesData (Some [\<lparr>au_name = ''HW1'', au_status = ''in_progress''\<rparr>]),
        completed = False\<rparr>]"

definition assemblyCall :: endsession_params where
  "assemblyCall =
     \<lparr>p_sessionId = ''stud_1'', p_stage = ''assembly'', p_stageNumber = 3, p_totalStages = 3,
      p_analysis = None, p_stageData = None, p_nextStageNeeded = False,
      p_isRevision = None, p_revisesStage = None\<rparr>"

definition exampleEnv :: session_env where
  "exampleEnv = \<lparr>envDate = ''2025-01-05'', envTimestamp = ''2025-01-05T00:00:00.000Z''\<rparr>"

text \<open>The two deadlines of the example graph, five days after the example clock's time.\<close>

definition exampleDeadlines :: "deadline list" where
  "exampleDeadlines =
     [\<lparr>entity = mkEntity ''HW1'' ''assignment'' [''status:not_started'', ''Due: 2025-01-10''],
       dueDate = 1736467200000,
       course = mkEntity ''Physics 101'' ''course'' [''Code: PHY101''],
       daysRemaining = 5\<rparr>,
      \<lparr>entity = mkEntity ''Midterm'' ''exam'' [''Covers physics of motion'', ''Date: 2025-01-10''],
       dueDate = 1736467200000,
       course = mkEntity ''Physics 101'' ''course'' [''Code: PHY101''],
       daysRemaining = 5\<rparr>]"

section \<open>Example concept graphs\<close>

text \<open>
  Limits are related to derivatives, and derivatives are a prerequisite for integrals; the
  second graph also relates limits to integrals directly.
\<close>

definition chainGraph :: knowledge_graph where
  "chainGraph =
     \<lparr>entities =
        [mkEntity ''Limits'' ''concept'' [], mkEntity ''Derivatives'' ''concept'' [],
         mkEntity ''Integrals'' ''concept'' []],
      relations =
        [mkRelation ''Limits'' ''Derivatives'' ''related_to'',
         mkRelation ''Derivatives'' ''Integrals'' ''prerequisite_for'']\<rparr>"

definition shortcutGraph :: knowledge_graph where
  "shortcutGraph =
     chainGraph\<lparr>relations := relations chainGraph @ [mkRelation ''Limits'' ''Integrals'' ''related_to'']\<rparr>"

definition chainResult :: related_result where
  "chainResult =
     \<lparr>rr_concept = mkEntity ''Limits'' ''concept'' [],
      relatedConcepts =
        [\<lparr>concept = mkEntity ''Derivatives'' ''concept'' [],
          relationPath = [''related_to Derivatives''], depth = 1, courses = [], resources = []\<rparr>,
         \<lparr>concept = mkEntity ''Integrals'' ''concept'' [],
          relationPath = [''related_to Derivatives'', ''prerequisite_for Integrals''], depth = 2,
          courses = [], resources = []\<rparr>],
      totalRelated = 2, summaryMaxDepth = 2\<rparr>"

definition shortcutResult :: related_result where
  "shortcutResult =
     \<lparr>rr_concept = mkEntity ''Limits'' ''concept'' [],
      relatedConcepts =
        [\<lparr>concept = mkEntity ''Derivatives'' ''concept'' [],
          relationPath = [''related_to Derivatives''], depth = 1, courses = [], resources = []\<rparr>,
         \<lparr>concept = mkEntity ''Integrals'' ''concept'' [],
          relationPath = [''related_to Integrals''], depth = 1, courses = [], resources = []\<rparr>],
      totalRelated = 2, summaryMaxDepth = 2\<rparr>"

text \<open>The chain again, with a middle concept whose name is the empty string.\<close>

definition blankGraph :: knowledge_graph where
  "blankGraph =
     \<lparr>entities =
        [mkEntity ''Limits'' ''concept'' [], mkEntity [] ''concept'' [],
         mkEntity ''Integrals'' ''concept'' []],
      relations =
        [mkRelation ''Limits'' [] ''related_to'',
         mkRelation [] ''Integrals'' ''prerequisite_for'']\<rparr>"


text \<open>
  The graph with a term and one more assignment, due inside the window, that no relation
  assigns to a course.
\<close>

definition essayGraph :: knowledge_graph where
  "essayGraph =
     termGraph\<lparr>entities := entities termGraph @ [mkEntity ''Essay'' ''assignment'' [''Due: 2025-01-10'']]\<rparr>"

text \<open>
  A clock about 11,600 years before 1970 and an assignment due on the day before the last
  valid date: the time between them is \<open>104250000\<close> days and one millisecond, one more
  than \<open>2^53 + 745259008\<close> milliseconds; the window ends one millisecond before the last
  valid time.
\<close>

definition farGraph :: knowledge_graph where
  "farGraph =
     \<lparr>entities =
        [mkEntity ''Physics 101'' ''course'' [],
         mkEntity ''HW1'' ''assignment'' [''Due: +275760-09-12'']],
      relations = [mkRelation ''HW1'' ''Physics 101'' ''assigned_in'']\<rparr>"

definition farClock :: clock where
  "farClock =
     \<lparr>now = - 367200086400001,
      endOfWindow = (\<lambda>daysAhead. - 367200086400001 + daysAhead * 86400000),
      parseDate = (\<lambda>s. if s = ''+275760-09-12'' then Some 8639999913600000 else None),
      isoDate = (\<lambda>t. if t = - 367200086400001 then ''-009667-11'' else ''+275760-09'')\<rparr>"


section \<open>Properties of the graph store\<close>

lemma str_includes_sublist: "str_includes s t \<longleftrightarrow> sublist t s"
  by (induction s) (auto simp: sublist_Cons_right)

lemma checkNewEntities_None:
  "checkNewEntities g es = None \<longleftrightarrow>
     (\<forall>e \<in> set es. (\<forall>x \<in> set (entities g). name x \<noteq> name e) \<and> isValidEntityType (entityType e))"
  by (induction es) auto

text \<open>
  Names stay unique when the new entities have distinct names, and under every other
  operation of the store.
\<close>

lemma createEntities_distinct_names:
  assumes "distinct (map name (entities g))" and "distinct (map name es)"
    and "createEntities g es = Inr g'"
  shows "distinct (map name (entities g'))"
proof -
  have n: "checkNewEntities g es = None" and g': "g' = g\<lparr>entities := entities g @ es\<rparr>"
    using assms(3) by (auto simp: createEntities_def split: option.splits)
  have "set (map name (entities g)) \<inter> set (map name es) = {}"
    using n unfolding checkNewEntities_None by auto
  then show ?thesis using assms(1,2) g' by simp
qed

lemma checkNewRelations_None:
  "checkNewRelations g rs = None \<longleftrightarrow>
     (\<forall>r \<in> set rs. (\<exists>e \<in> set (entities g). name e = rel_from r) \<and>
        (\<exists>e \<in> set (entities g). name e = rel_to r) \<and>
        relationType r \<in> set VALID_RELATION_TYPES \<and>
        \<not> (\<exists>s \<in> set (relations g). sameTriple s r))"
  by (induction rs) auto

lemma createRelations_entities: "createRelations g rs = Inr g' \<Longrightarrow> entities g' = entities g"
  by (auto simp: createRelations_def split: option.splits)

lemma map_name_addTo: "map name (addTo n obs es) = map name es"
  by (induction es) auto

lemma addObservations_names:
  "addObservations g n obs = Inr g' \<Longrightarrow> map name (entities g') = map name (entities g)"
  by (auto simp: addObservations_def map_name_addTo split: if_splits)

lemma map_name_removeFrom: "map name (removeFrom n obs es) = map name es"
  by (induction es) auto

lemma deleteObservations_names:
  "map name (entities (deleteObservations g ds)) = map name (entities g)"
proof -
  have "map name (fold (\<lambda>(n, obs). removeFrom n obs) ds es) = map name es" for es
    by (induction ds arbitrary: es) (auto simp: map_name_removeFrom)
  then show ?thesis by (simp add: deleteObservations_def)
qed

lemma deleteEntities_distinct_names:
  "distinct (map name (entities g)) \<Longrightarrow> distinct (map name (entities (deleteEntities g ns)))"
  by (simp add: deleteEntities_def distinct_map_filter)

lemma deleteRelations_entities: "entities (deleteRelations g rs) = entities g"
  by (simp add: deleteRelations_def)

lemma isSpace_lowerChar: "isSpace c \<Longrightarrow> lowerChar c = c"
  by (auto simp: isSpace_def lowerChar_def Let_def)

lemma toLowerCase_spaces: "\<forall>c \<in> set q. isSpace c \<Longrightarrow> toLowerCase q = q"
  by (simp add: toLowerCase_def isSpace_lowerChar map_idI)

lemma splitWhitespace_spaces:
  assumes "\<forall>c \<in> set q. isSpace c"
  shows "set (splitWhitespace q) = {[]}"
proof (cases q)
  case Nil
  then show ?thesis by (simp add: splitWhitespace.simps)
next
  case (Cons c cs)
  have t: "takeWhile (\<lambda>c. \<not> isSpace c) q = []" and d: "dropWhile (\<lambda>c. \<not> isSpace c) q = q"
    using assms Cons by auto
  have d2: "dropWhile isSpace q = []" using assms by simp
  have "splitWhitespace q = [] # splitWhitespace []"
    using Cons t d d2 by (subst splitWhitespace.simps) (simp add: Let_def)
  then show ?thesis by (simp add: splitWhitespace.simps)
qed

lemma termMatches_empty: "termMatches e []"
  by (simp add: termMatches_def str_includes_sublist)







text \<open>
  Claim C10. For a query that is empty or consists of white space only, every term is the
  empty string, which is a substring of every name: \<open>searchNodes\<close> returns all entities
  and the relations whose two ends are both names of stored entities, that is the whole
  graph when every relation ends at stored entities.
\<close>

theorem searchNodes_blank_query:
  assumes "\<forall>c \<in> set q. isSpace c"
  shows "searchNodes g q =
           \<lparr>entities = entities g,
            relations = filter (\<lambda>r. rel_from r \<in> name ` set (entities g) \<and>
                                     rel_to r \<in> name ` set (entities g)) (relations g)\<rparr>
         \<and> ((\<forall>r \<in> set (relations g). rel_from r \<in> name ` set (entities g) \<and>
                                       rel_to r \<in> name ` set (entities g))
              \<longrightarrow> searchNodes g q = g)"
proof -
  have terms: "set (splitWhitespace (toLowerCase q)) = {[]}"
    using assms by (simp add: toLowerCase_spaces splitWhitespace_spaces)
  have all: "matchesAllTerms (splitWhitespace (toLowerCase q)) e" for e
    by (simp add: matchesAllTerms_def terms termMatches_empty)
  have eq: "searchNodes g q =
           \<lparr>entities = entities g,
            relations = filter (\<lambda>r. rel_from r \<in> name ` set (entities g) \<and>
                                     rel_to r \<in> name ` set (entities g)) (relations g)\<rparr>"
    unfolding searchNodes_def Let_def by (simp add: all)
  have "searchNodes g q = g"
    if "\<forall>r \<in> set (relations g). rel_from r \<in> name ` set (entities g) \<and>
                                  rel_to r \<in> name ` set (entities g)"
  proof -
    have "filter (\<lambda>r. rel_from r \<in> name ` set (entities g) \<and>
                      rel_to r \<in> name ` set (entities g)) (relations g) = relations g"
      using that by (simp add: filter_id_conv)
    then show ?thesis using eq by simp
  qed
  then show ?thesis using eq by blast
qed

text \<open>
  The query of one space and the empty query on the example graph.
\<close>

theorem searchNodes_blank_query_witness:
  "searchNodes physicsGraph '' '' = physicsGraph \<and> searchNodes physicsGraph [] = physicsGraph"
proof -
  have s: "\<forall>c \<in> set '' ''. isSpace c" by (simp add: isSpace_def)
  have e: "\<forall>c \<in> set ''''. isSpace c" by simp
  have r: "\<forall>r \<in> set (relations physicsGraph). rel_from r \<in> name ` set (entities physicsGraph) \<and>
                                       rel_to r \<in> name ` set (entities physicsGraph)"
    by (simp add: physicsGraph_def mkEntity_def mkRelation_def)
  show ?thesis
    using searchNodes_blank_query [OF s, of physicsGraph] searchNodes_blank_query [OF e, of physicsGraph] r
    by blast
qed

text \<open>
  Claim C8. \<open>createRelations\<close> throws, and the stored graph stays as it was, when some
  listed relation has a \<open>from\<close> or a \<open>to\<close> that is no entity name of the stored graph, a
  relation type outside the twenty valid ones, or the same (from, to, relationType) as a
  relation already stored; otherwise it appends all the listed relations and saves.
\<close>

theorem createRelations_rejects_or_appends:
  "(if \<exists>r \<in> set rs.
         (\<forall>e \<in> set (entities g). name e \<noteq> rel_from r) \<or>
         (\<forall>e \<in> set (entities g). name e \<noteq> rel_to r) \<or>
         relationType r \<notin> set VALID_RELATION_TYPES \<or>
         (\<exists>s \<in> set (relations g). rel_from s = rel_from r \<and> rel_to s = rel_to r \<and>
                                     relationType s = relationType r)
    then (\<exists>err. createRelations g rs = Inl err \<and> attempt g (createRelations g rs) = (Some err, g))
    else createRelations g rs = Inr (g\<lparr>relations := relations g @ rs\<rparr>)
         \<and> attempt g (createRelations g rs) = (None, g\<lparr>relations := relations g @ rs\<rparr>))
   \<and> length VALID_RELATION_TYPES = 20 \<and> distinct VALID_RELATION_TYPES"
proof -
  let ?bad = "\<exists>r \<in> set rs.
         (\<forall>e \<in> set (entities g). name e \<noteq> rel_from r) \<or>
         (\<forall>e \<in> set (entities g). name e \<noteq> rel_to r) \<or>
         relationType r \<notin> set VALID_RELATION_TYPES \<or>
         (\<exists>s \<in> set (relations g). rel_from s = rel_from r \<and> rel_to s = rel_to r \<and>
                                     relationType s = relationType r)"
  have n: "checkNewRelations g rs = None \<longleftrightarrow> \<not> ?bad"
    unfolding checkNewRelations_None sameTriple_def by blast
  have types: "length VALID_RELATION_TYPES = 20 \<and> distinct VALID_RELATION_TYPES"
    by (simp add: VALID_RELATION_TYPES_def)
  show ?thesis
  proof (cases ?bad)
    case True
    then obtain err where "checkNewRelations g rs = Some err" using n by (cases "checkNewRelations g rs") auto
    then have "createRelations g rs = Inl err \<and> attempt g (createRelations g rs) = (Some err, g)"
      by (simp add: createRelations_def attempt_def)
    then have "\<exists>err. createRelations g rs = Inl err \<and> attempt g (createRelations g rs) = (Some err, g)"
      by blast
    then show ?thesis using types unfolding if_P [OF True] by blast
  next
    case False
    then have "checkNewRelations g rs = None" using n by simp
    then have "createRelations g rs = Inr (g\<lparr>relations := relations g @ rs\<rparr>)
         \<and> attempt g (createRelations g rs) = (None, g\<lparr>relations := relations g @ rs\<rparr>)"
      by (simp add: createRelations_def attempt_def)
    then show ?thesis using types unfolding if_not_P [OF False] by blast
  qed
qed

text \<open>
  On the example graph: a new relation between two stored entities is appended; one to the
  missing entity \<open>Final\<close> and one that repeats a stored triple are rejected.
\<close>

theorem createRelations_rejects_or_appends_witness:
  "createRelations physicsGraph [mkRelation ''HW1'' ''Midterm'' ''related_to'']
     = Inr (physicsGraph\<lparr>relations := relations physicsGraph @ [mkRelation ''HW1'' ''Midterm'' ''related_to'']\<rparr>)
   \<and> (\<exists>err. createRelations physicsGraph [mkRelation ''HW1'' ''Final'' ''related_to''] = Inl err)
   \<and> (\<exists>err. createRelations physicsGraph [mkRelation ''HW1'' ''Physics 101'' ''assigned_in''] = Inl err)"
proof -
  let ?bad = "\<lambda>g rs. \<exists>r \<in> set rs.
         (\<forall>e \<in> set (entities g). name e \<noteq> rel_from r) \<or>
         (\<forall>e \<in> set (entities g). name e \<noteq> rel_to r) \<or>
         relationType r \<notin> set VALID_RELATION_TYPES \<or>
         (\<exists>s \<in> set (relations g). rel_from s = rel_from r \<and> rel_to s = rel_to r \<and>
                                     relationType s = relationType r)"
  have ok: "\<not> ?bad physicsGraph [mkRelation ''HW1'' ''Midterm'' ''related_to'']"
    by (simp add: physicsGraph_def mkEntity_def mkRelation_def VALID_RELATION_TYPES_def)
  have missing: "?bad physicsGraph [mkRelation ''HW1'' ''Final'' ''related_to'']"
    by (simp add: physicsGraph_def mkEntity_def mkRelation_def VALID_RELATION_TYPES_def)
  have dup: "?bad physicsGraph [mkRelation ''HW1'' ''Physics 101'' ''assigned_in'']"
    by (simp add: physicsGraph_def mkEntity_def mkRelation_def VALID_RELATION_TYPES_def)
  show ?thesis
    using createRelations_rejects_or_appends [of "[mkRelation ''HW1'' ''Midterm'' ''related_to'']" physicsGraph,
        unfolded if_not_P [OF ok]]
      createRelations_rejects_or_appends [of "[mkRelation ''HW1'' ''Final'' ''related_to'']" physicsGraph,
        unfolded if_P [OF missing]]
      createRelations_rejects_or_appends [of "[mkRelation ''HW1'' ''Physics 101'' ''assigned_in'']" physicsGraph,
        unfolded if_P [OF dup]]
    by blast
qed

text \<open>
  Claim C9. \<open>deleteEntities\<close> never throws; it keeps, in their order, exactly the entities
  whose name is not listed and exactly the relations with neither end listed; names that
  match nothing change nothing; and after \<open>deleteEntities [A]\<close> the graph read back has no
  entity named \<open>A\<close> and no relation from or to \<open>A\<close>.
\<close>

theorem deleteEntities_cascades:
  "set (entities (deleteEntities g ns)) = {e \<in> set (entities g). name e \<notin> set ns}
   \<and> set (relations (deleteEntities g ns))
       = {r \<in> set (relations g). rel_from r \<notin> set ns \<and> rel_to r \<notin> set ns}
   \<and> subseq (entities (deleteEntities g ns)) (entities g)
   \<and> subseq (relations (deleteEntities g ns)) (relations g)
   \<and> ((\<forall>n \<in> set ns. n \<notin> name ` set (entities g) \<and> n \<notin> relationNames g) \<longrightarrow> deleteEntities g ns = g)
   \<and> (\<forall>e \<in> set (entities (readGraph (deleteEntities g [A]))). name e \<noteq> A)
   \<and> (\<forall>r \<in> set (relations (readGraph (deleteEntities g [A]))). rel_from r \<noteq> A \<and> rel_to r \<noteq> A)"
proof -
  have noop: "deleteEntities g ns = g"
    if h: "\<forall>n \<in> set ns. n \<notin> name ` set (entities g) \<and> n \<notin> relationNames g"
  proof -
    have "filter (\<lambda>e. name e \<notin> set ns) (entities g) = entities g"
      using h by (auto simp: filter_id_conv)
    moreover have "filter (\<lambda>r. rel_from r \<notin> set ns \<and> rel_to r \<notin> set ns) (relations g) = relations g"
      using h by (auto simp: filter_id_conv relationNames_def)
    ultimately show ?thesis by (simp add: deleteEntities_def)
  qed
  have "set (entities (deleteEntities g ns)) = {e \<in> set (entities g). name e \<notin> set ns}"
    by (simp add: deleteEntities_def)
  moreover have "set (relations (deleteEntities g ns))
       = {r \<in> set (relations g). rel_from r \<notin> set ns \<and> rel_to r \<notin> set ns}"
    by (simp add: deleteEntities_def)
  moreover have "subseq (entities (deleteEntities g ns)) (entities g)"
    by (simp add: deleteEntities_def)
  moreover have "subseq (relations (deleteEntities g ns)) (relations g)"
    by (simp add: deleteEntities_def)
  moreover have "\<forall>e \<in> set (entities (readGraph (deleteEntities g [A]))). name e \<noteq> A"
    by (simp add: deleteEntities_def readGraph_def)
  moreover have "\<forall>r \<in> set (relations (readGraph (deleteEntities g [A]))). rel_from r \<noteq> A \<and> rel_to r \<noteq> A"
    by (simp add: deleteEntities_def readGraph_def)
  ultimately show ?thesis using noop by blast
qed

text \<open>
  Deleting the course of the example graph, and a name that is not there.
\<close>

theorem deleteEntities_cascades_witness:
  "readGraph (deleteEntities physicsGraph [''Physics 101'', ''Nobody'']) =
     \<lparr>entities =
        [mkEntity ''Midterm'' ''exam'' [''Covers physics of motion'', ''Date: 2025-01-10''],
         mkEntity ''HW1'' ''assignment'' [''status:not_started'', ''Due: 2025-01-10'']],
      relations = []\<rparr>
   \<and> deleteEntities physicsGraph [''Nobody''] = physicsGraph"
proof -
  have h: "\<forall>n \<in> set [''Nobody'']. n \<notin> name ` set (entities physicsGraph) \<and> n \<notin> relationNames physicsGraph"
    by (simp add: physicsGraph_def mkEntity_def mkRelation_def relationNames_def)
  have "deleteEntities physicsGraph [''Nobody''] = physicsGraph"
    using deleteEntities_cascades [of physicsGraph "[''Nobody'']"] h by blast
  moreover have "readGraph (deleteEntities physicsGraph [''Physics 101'', ''Nobody'']) =
     \<lparr>entities =
        [mkEntity ''Midterm'' ''exam'' [''Covers physics of motion'', ''Date: 2025-01-10''],
         mkEntity ''HW1'' ''assignment'' [''status:not_started'', ''Due: 2025-01-10'']],
      relations = []\<rparr>"
    by (simp add: deleteEntities_def readGraph_def physicsGraph_def mkEntity_def mkRelation_def)
  ultimately show ?thesis by (intro conjI)
qed

text \<open>
  Claim C5. \<open>createEntities\<close> checks each new name against the stored entities only, not
  against the other new entities: on the empty store, which has unique names, a list that
  names \<open>Algebra\<close> twice is accepted and both entities are stored.
\<close>

theorem createEntities_repeated_name:
  "createEntities \<lparr>entities = [], relations = []\<rparr>
     [mkEntity ''Algebra'' ''course'' [], mkEntity ''Algebra'' ''concept'' []]
   = Inr \<lparr>entities = [mkEntity ''Algebra'' ''course'' [], mkEntity ''Algebra'' ''concept'' []],
          relations = []\<rparr>
   \<and> distinct (map name (entities \<lparr>entities = [], relations = []\<rparr>))
   \<and> \<not> distinct (map name [mkEntity ''Algebra'' ''course'' [], mkEntity ''Algebra'' ''concept'' []])"
  by (simp add: createEntities_def mkEntity_def isValidEntityType_def validEntityTypes_def)




section \<open>Properties of the session workflow and of the deadlines query\<close>

text \<open>
  Claim C3. When the session id of the call is not in the session-state store, the
  end-session operation, for any stage and so for an assembly stage, answers with the
  session-not-found failure and leaves both the session-state store and the knowledge
  graph as they were.
\<close>

theorem endsession_unknown_session:
  assumes "sessionStates (p_sessionId params) = None"
  shows "endsession env params (sessionStates, graph)
         = (Failure (SessionNotFound (p_sessionId params)), sessionStates, graph)"
  using assms by (simp add: endsession_def)

text \<open>
  An assembly stage for \<open>stud_1\<close> sent to an empty session-state store.
\<close>

theorem endsession_unknown_session_witness:
  "endsession exampleEnv assemblyCall (Map.empty, physicsGraph)
   = (Failure (SessionNotFound ''stud_1''), Map.empty, physicsGraph)"
proof -
  have "Map.empty (p_sessionId assemblyCall) = (None :: session_item list option)" by simp
  from endsession_unknown_session [where params = assemblyCall and sessionStates = Map.empty
      and env = exampleEnv and graph = physicsGraph, OF this]
  show ?thesis by (simp add: assemblyCall_def)
qed

text \<open>
  Claim C1. The assembly step looks an updated assignment up with
  \<open>searchNodes\<close> on the text \<open>name:\<close> followed by its name, and \<open>searchNodes\<close> knows no
  such prefix: the whole text is a search term. For the example session, which reports
  \<open>HW1\<close> as \<open>in_progress\<close>, no entity contains \<open>name:hw1\<close>, the update is skipped, the
  session is recorded as successful and the graph is the one before the call: \<open>HW1\<close> is
  still stored with \<open>status:not_started\<close>.
\<close>

theorem assembly_leaves_assignment_status:
  "(\<exists>r. fst (endsession exampleEnv assemblyCall ([''stud_1'' \<mapsto> exampleSession], physicsGraph))
         = SessionRecorded r
       \<and> stageData r = AssembledArgs (assembleEndSessionArgs exampleEnv exampleSession))
   \<and> args_assignmentUpdates (assembleEndSessionArgs exampleEnv exampleSession)
       = [\<lparr>au_name = ''HW1'', au_status = ''in_progress''\<rparr>]
   \<and> snd (snd (endsession exampleEnv assemblyCall ([''stud_1'' \<mapsto> exampleSession], physicsGraph)))
       = physicsGraph
   \<and> findEntity physicsGraph ''HW1'' ''assignment''
       = Some (mkEntity ''HW1'' ''assignment'' [''status:not_started'', ''Due: 2025-01-10''])"
proof -
  have args: "args_assignmentUpdates (assembleEndSessionArgs exampleEnv exampleSession)
       = [\<lparr>au_name = ''HW1'', au_status = ''in_progress''\<rparr>]"
    by code_simp
  have rec: "recordSession (assembleEndSessionArgs exampleEnv exampleSession) physicsGraph
             = (None, physicsGraph)"
    by code_simp
  have ps: "processStage exampleEnv assemblyCall exampleSession
        = Inr \<lparr>stage = ''assembly'', stageNumber = 3,
                  analysis = ''Final assembly of end-session arguments'',
                  stageData = AssembledArgs (assembleEndSessionArgs exampleEnv exampleSession),
                  completed = True\<rparr>"
    by (simp add: processStage_def assemblyCall_def)
  have e: "endsession exampleEnv assemblyCall ([''stud_1'' \<mapsto> exampleSession], physicsGraph)
      = (SessionRecorded \<lparr>stage = ''assembly'', stageNumber = 3,
                  analysis = ''Final assembly of end-session arguments'',
                  stageData = AssembledArgs (assembleEndSessionArgs exampleEnv exampleSession),
                  completed = True\<rparr>,
         ([''stud_1'' \<mapsto> exampleSession](''stud_1'' \<mapsto>
            storeStage assemblyCall \<lparr>stage = ''assembly'', stageNumber = 3,
                  analysis = ''Final assembly of end-session arguments'',
                  stageData = AssembledArgs (assembleEndSessionArgs exampleEnv exampleSession),
                  completed = True\<rparr> exampleSession))(''stud_1'' \<mapsto>
            storeStage assemblyCall \<lparr>stage = ''assembly'', stageNumber = 3,
                  analysis = ''Final assembly of end-session arguments'',
                  stageData = AssembledArgs (assembleEndSessionArgs exampleEnv exampleSession),
                  completed = True\<rparr> exampleSession @
            [SessionCompleted (envTimestamp exampleEnv)
               (args_date (assembleEndSessionArgs exampleEnv exampleSession))
               (args_summary (assembleEndSessionArgs exampleEnv exampleSession))
               (args_course (assembleEndSessionArgs exampleEnv exampleSession))]),
         physicsGraph)"
    unfolding endsession_def
    by (simp add: ps rec Let_def) (simp add: assemblyCall_def)
  have f: "findEntity physicsGraph ''HW1'' ''assignment''
       = Some (mkEntity ''HW1'' ''assignment'' [''status:not_started'', ''Due: 2025-01-10''])"
    by (simp add: findEntity_def physicsGraph_def mkEntity_def)
  show ?thesis using args f by (simp add: e)
qed


text \<open>
  Up to \<open>2^53\<close> milliseconds the difference is exact, and the days remaining are the
  ceiling of the quotient of the elapsed milliseconds by 86,400,000.
\<close>

lemma toDouble_exact: "\<bar>x\<bar> \<le> 9007199254740992 \<Longrightarrow> toDouble x = x"
  by (simp add: toDouble_def)

lemma ceilDays_ceiling:
  assumes "\<bar>due - today\<bar> \<le> 9007199254740992"
  shows "ceilDays due today = \<lceil>real_of_int (due - today) / 86400000\<rceil>"
proof -
  have "\<lceil>real_of_int (due - today) / real_of_int 86400000\<rceil> = - (- (due - today) div 86400000)"
    by (rule ceiling_divide_eq_div)
  then show ?thesis using toDouble_exact [OF assms] by (simp add: ceilDays_def msPerDay_def)
qed

lemma datedDeadline_Some:
  assumes "datedDeadline clk today endD crs key e = Some d"
  shows "entity d = e \<and> course d = crs \<and> daysRemaining d = ceilDays (dueDate d) today
         \<and> today \<le> dueDate d \<and> dueDate d \<le> endD
         \<and> (\<exists>obs. find (\<lambda>obs. startsWith obs key) (observations e) = Some obs
                \<and> parseDate clk (trim (colonField obs)) = Some (dueDate d))"
  using assms by (auto simp: datedDeadline_def split: option.splits if_splits)

lemma in_set_map_filter:
  "y \<in> set (List.map_filter f xs) \<longleftrightarrow> (\<exists>x \<in> set xs. f x = Some y)"
  by (induction xs) (auto split: option.splits)

lemma courseDeadlines_member:
  assumes "d \<in> set (courseDeadlines graph clk today endD crs)"
  shows "course d = crs \<and> daysRemaining d = ceilDays (dueDate d) today
         \<and> today \<le> dueDate d \<and> dueDate d \<le> endD
         \<and> (\<exists>key obs. (key = ''Due:'' \<or> key = ''Date:'')
                \<and> find (\<lambda>obs. startsWith obs key) (observations (entity d)) = Some obs
                \<and> parseDate clk (trim (colonField obs)) = Some (dueDate d))"
proof -
  from assms have "(\<exists>a. datedDeadline clk today endD crs ''Due:'' a = Some d)
                 \<or> (\<exists>a. datedDeadline clk today endD crs ''Date:'' a = Some d)"
    by (auto simp: courseDeadlines_def in_set_map_filter split: if_splits option.splits)
  then show ?thesis
  proof (elim disjE exE)
    fix a assume "datedDeadline clk today endD crs ''Due:'' a = Some d"
    from datedDeadline_Some [OF this] show ?thesis by blast
  next
    fix a assume "datedDeadline clk today endD crs ''Date:'' a = Some d"
    from datedDeadline_Some [OF this] show ?thesis by blast
  qed
qed

lemma deadlines_members:
  assumes "getUpcomingDeadlines graph clk termName courseName daysAhead = Inr res"
    and "d \<in> set (deadlines res)"
  shows "\<exists>crs. d \<in> set (courseDeadlines graph clk (now clk)
                  (endOfWindow clk (case daysAhead of None \<Rightarrow> 14 | Some n \<Rightarrow> n)) crs)"
  using assms
  by (auto simp: getUpcomingDeadlines_def Let_def split: if_splits)

text \<open>
  Without a term filter, an assignment that an \<open>assigned_in\<close> relation links to a course
  the query covers, and whose \<open>Due:\<close> observation parses to a valid date in the window, is
  listed.
\<close>

lemma assignment_in_window_listed:
  assumes "\<not> given termName"
    and "c \<in> set (entities graph)" and "entityType c = ''course''"
    and "given courseName \<longrightarrow> name c = the courseName"
    and "r \<in> set (relations graph)" and "relationType r = ''assigned_in''" and "rel_to r = name c"
    and "findEntity graph (rel_from r) ''assignment'' = Some a"
    and "find (\<lambda>obs. startsWith obs ''Due:'') (observations a) = Some obs"
    and "parseDate clk (trim (colonField obs)) = Some due"
    and "validTime (now clk)" and "validTime due"
    and "validTime (endOfWindow clk (case daysAhead of None \<Rightarrow> 14 | Some n \<Rightarrow> n))"
    and "now clk \<le> due"
    and "due \<le> endOfWindow clk (case daysAhead of None \<Rightarrow> 14 | Some n \<Rightarrow> n)"
  shows "\<exists>res. getUpcomingDeadlines graph clk termName courseName daysAhead = Inr res
           \<and> \<lparr>entity = a, dueDate = due, course = c,
               daysRemaining = ceilDays due (now clk)\<rparr> \<in> set (deadlines res)"
proof -
  let ?endD = "endOfWindow clk (case daysAhead of None \<Rightarrow> 14 | Some n \<Rightarrow> n)"
  let ?d = "\<lparr>entity = a, dueDate = due, course = c, daysRemaining = ceilDays due (now clk)\<rparr>"
  let ?cs = "if given courseName
             then filter (\<lambda>x. name x = the courseName) (filter (\<lambda>e. entityType e = ''course'') (entities graph))
             else filter (\<lambda>e. entityType e = ''course'') (entities graph)"
  have dd: "datedDeadline clk (now clk) ?endD c ''Due:'' a = Some ?d"
    using assms(9-15) by (simp add: datedDeadline_def)
  have "?d \<in> set (courseDeadlines graph clk (now clk) ?endD c)"
    unfolding courseDeadlines_def set_append Un_iff in_set_map_filter
    using assms(5-8) dd by (intro disjI1 bexI [of _ r]) simp_all
  moreover have cin: "c \<in> set ?cs" using assms(2-4) by auto
  ultimately have "?d \<in> set (sort_key dueDate (concat (map (courseDeadlines graph clk (now clk) ?endD) ?cs)))"
    by auto
  moreover have "?cs \<noteq> []" using cin by auto
  ultimately show ?thesis
    using assms(1,11,13) by (simp add: getUpcomingDeadlines_def Let_def)
qed

lemma example_deadlines:
  "getUpcomingDeadlines termGraph exampleClock None None None
     = Inr \<lparr>deadlines = exampleDeadlines, startDate = ''2025-01-05'', endDate = ''2025-01-19'',
            courseFilter = None, termFilter = None, count = 2\<rparr>"
  by code_simp

lemma far_deadlines:
  "getUpcomingDeadlines farGraph farClock None None (Some 104250001)
     = Inr \<lparr>deadlines =
              [\<lparr>entity = mkEntity ''HW1'' ''assignment'' [''Due: +275760-09-12''],
                dueDate = 8639999913600000,
                course = mkEntity ''Physics 101'' ''course'' [],
                daysRemaining = 104250000\<rparr>],
            startDate = ''-009667-11'', endDate = ''+275760-09'',
            courseFilter = None, termFilter = None, count = 1\<rparr>"
  by code_simp

lemma essay_deadlines:
  "getUpcomingDeadlines essayGraph exampleClock None None None
     = Inr \<lparr>deadlines = exampleDeadlines, startDate = ''2025-01-05'', endDate = ''2025-01-19'',
            courseFilter = None, termFilter = None, count = 2\<rparr>"
  by code_simp

text \<open>
  Claim C7 as stated fails for an assignment that the query does not collect: the essay of
  \<open>essayGraph\<close> is due inside the window, five days ahead, but no \<open>assigned_in\<close> relation
  links it to a course, and the result has the two entries of the other graph only. It also
  fails where the double arithmetic rounds: for the far clock the listed assignment is due
  104250000 days and one millisecond ahead, the ceiling is 104250001, and the result says
  104250000.
\<close>

theorem deadline_missing_or_rounded:
  "getUpcomingDeadlines essayGraph exampleClock None None None
     = Inr \<lparr>deadlines = exampleDeadlines, startDate = ''2025-01-05'', endDate = ''2025-01-19'',
            courseFilter = None, termFilter = None, count = 2\<rparr>
   \<and> map entity exampleDeadlines
       = [mkEntity ''HW1'' ''assignment'' [''status:not_started'', ''Due: 2025-01-10''],
          mkEntity ''Midterm'' ''exam'' [''Covers physics of motion'', ''Date: 2025-01-10'']]
   \<and> findEntity essayGraph ''Essay'' ''assignment''
       = Some (mkEntity ''Essay'' ''assignment'' [''Due: 2025-01-10''])
   \<and> datedDeadline exampleClock (now exampleClock) (endOfWindow exampleClock 14)
         (mkEntity ''Physics 101'' ''course'' [''Code: PHY101'']) ''Due:''
         (mkEntity ''Essay'' ''assignment'' [''Due: 2025-01-10''])
       = Some \<lparr>entity = mkEntity ''Essay'' ''assignment'' [''Due: 2025-01-10''],
               dueDate = 1736467200000,
               course = mkEntity ''Physics 101'' ''course'' [''Code: PHY101''],
               daysRemaining = 5\<rparr>
   \<and> getUpcomingDeadlines farGraph farClock None None (Some 104250001)
     = Inr \<lparr>deadlines =
              [\<lparr>entity = mkEntity ''HW1'' ''assignment'' [''Due: +275760-09-12''],
                dueDate = 8639999913600000,
                course = mkEntity ''Physics 101'' ''course'' [],
                daysRemaining = 104250000\<rparr>],
            startDate = ''-009667-11'', endDate = ''+275760-09'',
            courseFilter = None, termFilter = None, count = 1\<rparr>
   \<and> \<lceil>real_of_int (8639999913600000 - now farClock) / 86400000\<rceil> = 104250001"
proof -
  have "map entity exampleDeadlines
       = [mkEntity ''HW1'' ''assignment'' [''status:not_started'', ''Due: 2025-01-10''],
          mkEntity ''Midterm'' ''exam'' [''Covers physics of motion'', ''Date: 2025-01-10'']]"
    by (simp add: exampleDeadlines_def)
  moreover have "findEntity essayGraph ''Essay'' ''assignment''
       = Some (mkEntity ''Essay'' ''assignment'' [''Due: 2025-01-10''])"
    by code_simp
  moreover have "datedDeadline exampleClock (now exampleClock) (endOfWindow exampleClock 14)
         (mkEntity ''Physics 101'' ''course'' [''Code: PHY101'']) ''Due:''
         (mkEntity ''Essay'' ''assignment'' [''Due: 2025-01-10''])
       = Some \<lparr>entity = mkEntity ''Essay'' ''assignment'' [''Due: 2025-01-10''],
               dueDate = 1736467200000,
               course = mkEntity ''Physics 101'' ''course'' [''Code: PHY101''],
               daysRemaining = 5\<rparr>"
    by code_simp
  moreover have "\<lceil>real_of_int (8639999913600000 - now farClock) / 86400000\<rceil> = 104250001"
  proof -
    have "\<lceil>real_of_int (8639999913600000 - now farClock) / real_of_int 86400000\<rceil>
          = - (- (8639999913600000 - now farClock) div 86400000)"
      by (rule ceiling_divide_eq_div)
    then show ?thesis by (simp add: farClock_def)
  qed
  ultimately show ?thesis using essay_deadlines far_deadlines by (intro conjI)
qed

text \<open>
  Claim C7, amended. In every query, each entry of the result whose date is at most
  \<open>2^53\<close> milliseconds after the query time has as \<open>daysRemaining\<close> the ceiling of the time
  from the query time to its date divided by 86,400,000 ms; its date lies in the window
  and is the parsed value of the \<open>Due:\<close> or \<open>Date:\<close> observation of its entity. And in
  every query without a term filter, each assignment that an \<open>assigned_in\<close> relation links
  to a course the query covers, whose \<open>Due:\<close> observation parses to a valid date inside a
  valid window and at most \<open>2^53\<close> milliseconds after the query time, has an entry in the
  result with that \<open>daysRemaining\<close>.
\<close>

theorem daysRemaining_is_ceiling:
  "(\<forall>res d. getUpcomingDeadlines graph clk termName courseName daysAhead = Inr res
        \<and> d \<in> set (deadlines res) \<and> dueDate d - now clk \<le> 9007199254740992
      \<longrightarrow> daysRemaining d = \<lceil>real_of_int (dueDate d - now clk) / 86400000\<rceil>
          \<and> now clk \<le> dueDate d
          \<and> dueDate d \<le> endOfWindow clk (case daysAhead of None \<Rightarrow> 14 | Some n \<Rightarrow> n)
          \<and> (\<exists>key obs. (key = ''Due:'' \<or> key = ''Date:'')
                 \<and> find (\<lambda>obs. startsWith obs key) (observations (entity d)) = Some obs
                 \<and> parseDate clk (trim (colonField obs)) = Some (dueDate d)))
   \<and> (\<not> given termName
        \<and> c \<in> set (entities graph) \<and> entityType c = ''course''
        \<and> (given courseName \<longrightarrow> name c = the courseName)
        \<and> r \<in> set (relations graph) \<and> relationType r = ''assigned_in'' \<and> rel_to r = name c
        \<and> findEntity graph (rel_from r) ''assignment'' = Some a
        \<and> find (\<lambda>obs. startsWith obs ''Due:'') (observations a) = Some obs
        \<and> parseDate clk (trim (colonField obs)) = Some due
        \<and> validTime (now clk) \<and> validTime due
        \<and> validTime (endOfWindow clk (case daysAhead of None \<Rightarrow> 14 | Some n \<Rightarrow> n))
        \<and> now clk \<le> due
        \<and> due \<le> endOfWindow clk (case daysAhead of None \<Rightarrow> 14 | Some n \<Rightarrow> n)
        \<and> due - now clk \<le> 9007199254740992
      \<longrightarrow> (\<exists>res. getUpcomingDeadlines graph clk termName courseName daysAhead = Inr res
             \<and> \<lparr>entity = a, dueDate = due, course = c,
                 daysRemaining = \<lceil>real_of_int (due - now clk) / 86400000\<rceil>\<rparr>
               \<in> set (deadlines res)))"
proof -
  have part1: "(\<forall>res d. getUpcomingDeadlines graph clk termName courseName daysAhead = Inr res
        \<and> d \<in> set (deadlines res) \<and> dueDate d - now clk \<le> 9007199254740992
      \<longrightarrow> daysRemaining d = \<lceil>real_of_int (dueDate d - now clk) / 86400000\<rceil>
          \<and> now clk \<le> dueDate d
          \<and> dueDate d \<le> endOfWindow clk (case daysAhead of None \<Rightarrow> 14 | Some n \<Rightarrow> n)
          \<and> (\<exists>key obs. (key = ''Due:'' \<or> key = ''Date:'')
                 \<and> find (\<lambda>obs. startsWith obs key) (observations (entity d)) = Some obs
                 \<and> parseDate clk (trim (colonField obs)) = Some (dueDate d)))"
  proof (intro allI impI)
    fix res d
    assume h: "getUpcomingDeadlines graph clk termName courseName daysAhead = Inr res
          \<and> d \<in> set (deadlines res) \<and> dueDate d - now clk \<le> 9007199254740992"
    then have res: "getUpcomingDeadlines graph clk termName courseName daysAhead = Inr res"
      and d: "d \<in> set (deadlines res)" and b: "dueDate d - now clk \<le> 9007199254740992"
      by simp_all
    from deadlines_members [OF res d] obtain crs where
      "d \<in> set (courseDeadlines graph clk (now clk)
                    (endOfWindow clk (case daysAhead of None \<Rightarrow> 14 | Some n \<Rightarrow> n)) crs)" ..
    from courseDeadlines_member [OF this]
    have m: "daysRemaining d = ceilDays (dueDate d) (now clk)" "now clk \<le> dueDate d"
      "dueDate d \<le> endOfWindow clk (case daysAhead of None \<Rightarrow> 14 | Some n \<Rightarrow> n)"
      "\<exists>key obs. (key = ''Due:'' \<or> key = ''Date:'')
                   \<and> find (\<lambda>obs. startsWith obs key) (observations (entity d)) = Some obs
                   \<and> parseDate clk (trim (colonField obs)) = Some (dueDate d)"
      by blast+
    have "\<bar>dueDate d - now clk\<bar> \<le> 9007199254740992" using b m(2) by simp
    from ceilDays_ceiling [OF this]
    show "daysRemaining d = \<lceil>real_of_int (dueDate d - now clk) / 86400000\<rceil>
            \<and> now clk \<le> dueDate d
            \<and> dueDate d \<le> endOfWindow clk (case daysAhead of None \<Rightarrow> 14 | Some n \<Rightarrow> n)
            \<and> (\<exists>key obs. (key = ''Due:'' \<or> key = ''Date:'')
                   \<and> find (\<lambda>obs. startsWith obs key) (observations (entity d)) = Some obs
                   \<and> parseDate clk (trim (colonField obs)) = Some (dueDate d))"
      using m by simp
  qed
  have part2: "(\<not> given termName
        \<and> c \<in> set (entities graph) \<and> entityType c = ''course''
        \<and> (given courseName \<longrightarrow> name c = the courseName)
        \<and> r \<in> set (relations graph) \<and> relationType r = ''assigned_in'' \<and> rel_to r = name c
        \<and> findEntity graph (rel_from r) ''assignment'' = Some a
        \<and> find (\<lambda>obs. startsWith obs ''Due:'') (observations a) = Some obs
        \<and> parseDate clk (trim (colonField obs)) = Some due
        \<and> validTime (now clk) \<and> validTime due
        \<and> validTime (endOfWindow clk (case daysAhead of None \<Rightarrow> 14 | Some n \<Rightarrow> n))
        \<and> now clk \<le> due
        \<and> due \<le> endOfWindow clk (case daysAhead of None \<Rightarrow> 14 | Some n \<Rightarrow> n)
        \<and> due - now clk \<le> 9007199254740992
      \<longrightarrow> (\<exists>res. getUpcomingDeadlines graph clk termName courseName daysAhead = Inr res
             \<and> \<lparr>entity = a, dueDate = due, course = c,
                 daysRemaining = \<lceil>real_of_int (due - now clk) / 86400000\<rceil>\<rparr>
               \<in> set (deadlines res)))"
  proof (rule impI)
    assume h: "\<not> given termName
          \<and> c \<in> set (entities graph) \<and> entityType c = ''course''
          \<and> (given courseName \<longrightarrow> name c = the courseName)
          \<and> r \<in> set (relations graph) \<and> relationType r = ''assigned_in'' \<and> rel_to r = name c
          \<and> findEntity graph (rel_from r) ''assignment'' = Some a
          \<and> find (\<lambda>obs. startsWith obs ''Due:'') (observations a) = Some obs
          \<and> parseDate clk (trim (colonField obs)) = Some due
          \<and> validTime (now clk) \<and> validTime due
          \<and> validTime (endOfWindow clk (case daysAhead of None \<Rightarrow> 14 | Some n \<Rightarrow> n))
          \<and> now clk \<le> due
          \<and> due \<le> endOfWindow clk (case daysAhead of None \<Rightarrow> 14 | Some n \<Rightarrow> n)
          \<and> due - now clk \<le> 9007199254740992"
    have "\<exists>res. getUpcomingDeadlines graph clk termName courseName daysAhead = Inr res
             \<and> \<lparr>entity = a, dueDate = due, course = c,
                 daysRemaining = ceilDays due (now clk)\<rparr> \<in> set (deadlines res)"
      by (rule assignment_in_window_listed [where r = r and obs = obs]) (use h in simp_all)
    moreover have "\<bar>due - now clk\<bar> \<le> 9007199254740992" using h by simp
    ultimately show "\<exists>res. getUpcomingDeadlines graph clk termName courseName daysAhead = Inr res
               \<and> \<lparr>entity = a, dueDate = due, course = c,
                   daysRemaining = \<lceil>real_of_int (due - now clk) / 86400000\<rceil>\<rparr>
                 \<in> set (deadlines res)"
      by (simp add: ceilDays_ceiling)
  qed
  show ?thesis using part1 part2 by (rule conjI)
qed

text \<open>
  The example clock stands at 2025-01-05 and \<open>HW1\<close> of the example graph is due on
  2025-01-10: it is listed with five days remaining.
\<close>

theorem daysRemaining_is_ceiling_witness:
  "getUpcomingDeadlines termGraph exampleClock None None None
     = Inr \<lparr>deadlines = exampleDeadlines, startDate = ''2025-01-05'', endDate = ''2025-01-19'',
            courseFilter = None, termFilter = None, count = 2\<rparr>
   \<and> \<lparr>entity = mkEntity ''HW1'' ''assignment'' [''status:not_started'', ''Due: 2025-01-10''],
       dueDate = 1736467200000, course = mkEntity ''Physics 101'' ''course'' [''Code: PHY101''],
       daysRemaining = \<lceil>real_of_int (1736467200000 - now exampleClock) / 86400000\<rceil>\<rparr>
     \<in> set exampleDeadlines
   \<and> \<lceil>real_of_int (1736467200000 - now exampleClock) / 86400000\<rceil> = 5"
proof -
  let ?c = "mkEntity ''Physics 101'' ''course'' [''Code: PHY101'']"
  let ?a = "mkEntity ''HW1'' ''assignment'' [''status:not_started'', ''Due: 2025-01-10'']"
  let ?r = "mkRelation ''HW1'' ''Physics 101'' ''assigned_in''"
  have h1: "\<not> given None" by (simp add: given_def)
  have h2: "?c \<in> set (entities termGraph) \<and> entityType ?c = ''course''
            \<and> (given None \<longrightarrow> name ?c = the None)"
    by (simp add: termGraph_def physicsGraph_def mkEntity_def given_def)
  have h3: "?r \<in> set (relations termGraph) \<and> relationType ?r = ''assigned_in'' \<and> rel_to ?r = name ?c"
    by (simp add: termGraph_def physicsGraph_def mkEntity_def mkRelation_def)
  have h4: "findEntity termGraph (rel_from ?r) ''assignment'' = Some ?a"
    by code_simp
  have h5: "find (\<lambda>obs. startsWith obs ''Due:'') (observations ?a) = Some ''Due: 2025-01-10''"
    by code_simp
  have h6: "parseDate exampleClock (trim (colonField ''Due: 2025-01-10'')) = Some 1736467200000"
    by code_simp
  have h7: "validTime (now exampleClock) \<and> validTime 1736467200000
        \<and> validTime (endOfWindow exampleClock (case None of None \<Rightarrow> 14 | Some n \<Rightarrow> n))
        \<and> now exampleClock \<le> 1736467200000
        \<and> 1736467200000 \<le> endOfWindow exampleClock (case None of None \<Rightarrow> 14 | Some n \<Rightarrow> n)
        \<and> 1736467200000 - now exampleClock \<le> 9007199254740992"
    by (simp add: exampleClock_def validTime_def maxTime_def)
  have "\<exists>res. getUpcomingDeadlines termGraph exampleClock None None None = Inr res
             \<and> \<lparr>entity = ?a, dueDate = 1736467200000, course = ?c,
                 daysRemaining = \<lceil>real_of_int (1736467200000 - now exampleClock) / 86400000\<rceil>\<rparr>
               \<in> set (deadlines res)"
    using daysRemaining_is_ceiling [where graph = termGraph and clk = exampleClock
        and termName = None and courseName = None and daysAhead = None
        and c = ?c and r = ?r and a = ?a and obs = "''Due: 2025-01-10''" and due = 1736467200000]
      h1 h2 h3 h4 h5 h6 h7
    by blast
  then have listed: "\<lparr>entity = ?a, dueDate = 1736467200000, course = ?c,
       daysRemaining = \<lceil>real_of_int (1736467200000 - now exampleClock) / 86400000\<rceil>\<rparr>
     \<in> set exampleDeadlines"
    using example_deadlines by auto
  have five: "\<lceil>real_of_int (1736467200000 - now exampleClock) / 86400000\<rceil> = 5"
  proof -
    have "\<lceil>real_of_int (1736467200000 - now exampleClock) / real_of_int 86400000\<rceil>
          = - (- (1736467200000 - now exampleClock) div 86400000)"
      by (rule ceiling_divide_eq_div)
    then show ?thesis by (simp add: exampleClock_def)
  qed
  show ?thesis using example_deadlines listed five by (intro conjI)
qed


text \<open>
  The term filter keeps a \<open>part_of\<close> relation only when its two ends are equal and equal
  to the term name, and then looks for a course of that name; with unique names the entity
  of that name is the term, so no course is relevant and no deadline is collected.
\<close>

lemma map_filter_none: "List.map_filter (\<lambda>x. None) xs = []"
  by (induction xs) simp_all

lemma termCourses_unique_names:
  assumes "distinct (map name (entities graph))"
    and "findEntity graph termName ''term'' \<noteq> None"
  shows "termCourses graph termName = []"
proof -
  obtain t where t: "findEntity graph termName ''term'' = Some t" using assms(2) by auto
  then have tin: "t \<in> set (entities graph)" "name t = termName" "entityType t = ''term''"
    by (auto simp: findEntity_def find_Some_iff)
  have "findEntity graph termName ''course'' = None"
  proof (rule ccontr)
    assume "findEntity graph termName ''course'' \<noteq> None"
    then obtain c where "findEntity graph termName ''course'' = Some c" by auto
    then have cin: "c \<in> set (entities graph)" "name c = termName" "entityType c = ''course''"
      by (auto simp: findEntity_def find_Some_iff)
    have "inj_on name (set (entities graph))" using assms(1) by (simp add: distinct_map)
    then have "c = t" using cin tin by (auto dest: inj_onD)
    then show False using cin tin by simp
  qed
  then have eq: "(\<lambda>r. if relationType r = ''part_of'' \<and> rel_from r = rel_to r \<and> rel_to r = termName
            then findEntity graph (rel_from r) ''course'' else None) = (\<lambda>r. None)"
    by auto
  show ?thesis by (simp only: termCourses_def eq map_filter_none)
qed

lemma term_filter_unique_names:
  assumes "distinct (map name (entities graph))" and "given termName"
    and "getUpcomingDeadlines graph clk termName courseName daysAhead = Inr res"
  shows "deadlines res = []"
proof -
  have f: "findEntity graph (the termName) ''term'' \<noteq> None"
    using assms(2,3) by (auto simp: getUpcomingDeadlines_def Let_def split: if_splits)
  have "termCourses graph (the termName) = []"
    by (rule termCourses_unique_names [OF assms(1) f])
  then show ?thesis
    using assms(2,3) by (auto simp: getUpcomingDeadlines_def Let_def split: if_splits)
qed

text \<open>
  Claim C2. In the example graph the course \<open>Physics 101\<close> is \<open>part_of\<close> the term
  \<open>Spring 2025\<close> and has an assignment and an exam due inside the window. Without a term
  filter the query lists both; with the term filter \<open>Spring 2025\<close> it lists none.
\<close>

theorem term_filter_drops_deadlines:
  "getUpcomingDeadlines termGraph exampleClock (Some ''Spring 2025'') None None
     = Inr \<lparr>deadlines = [], startDate = ''2025-01-05'', endDate = ''2025-01-19'',
            courseFilter = None, termFilter = Some ''Spring 2025'', count = 0\<rparr>
   \<and> findEntity termGraph ''Spring 2025'' ''term'' = Some (mkEntity ''Spring 2025'' ''term'' [])
   \<and> mkRelation ''Physics 101'' ''Spring 2025'' ''part_of'' \<in> set (relations termGraph)
   \<and> mkRelation ''HW1'' ''Physics 101'' ''assigned_in'' \<in> set (relations termGraph)
   \<and> getUpcomingDeadlines termGraph exampleClock None None None
     = Inr \<lparr>deadlines = exampleDeadlines, startDate = ''2025-01-05'', endDate = ''2025-01-19'',
            courseFilter = None, termFilter = None, count = 2\<rparr>"
proof -
  have "getUpcomingDeadlines termGraph exampleClock (Some ''Spring 2025'') None None
     = Inr \<lparr>deadlines = [], startDate = ''2025-01-05'', endDate = ''2025-01-19'',
            courseFilter = None, termFilter = Some ''Spring 2025'', count = 0\<rparr>"
    by code_simp
  moreover have "findEntity termGraph ''Spring 2025'' ''term'' = Some (mkEntity ''Spring 2025'' ''term'' [])"
    by code_simp
  moreover have "mkRelation ''Physics 101'' ''Spring 2025'' ''part_of'' \<in> set (relations termGraph)"
    by (simp add: termGraph_def)
  moreover have "mkRelation ''HW1'' ''Physics 101'' ''assigned_in'' \<in> set (relations termGraph)"
    by (simp add: termGraph_def physicsGraph_def)
  ultimately show ?thesis using example_deadlines by (intro conjI)
qed



section \<open>Properties of the traversal\<close>

text \<open>
  One pass over the relations appends items to the queue: their names are distinct,
  non-empty and were not processed before, they are one level below the current item, and
  they are exactly the names added to the processed set.
\<close>

lemma enqueueAll_shape:
  "\<exists>new. fst (enqueueAll nxt cur rs (q, p)) = q @ new
       \<and> snd (enqueueAll nxt cur rs (q, p)) = p \<union> set (map qname new)
       \<and> distinct (map qname new) \<and> set (map qname new) \<inter> p = {}
       \<and> (\<forall>i \<in> set new. currentDepth i = currentDepth cur + 1 \<and> qname i \<noteq> []
             \<and> (\<exists>r \<in> set rs. \<exists>d. nxt r = Some (qname i, d)))"
proof (induction rs arbitrary: q p)
  case Nil
  show ?case by simp
next
  case (Cons r rs)
  show ?case
  proof (cases "nxt r")
    case None
    from Cons.IH [of q p] obtain new where
      "fst (enqueueAll nxt cur rs (q, p)) = q @ new"
      "snd (enqueueAll nxt cur rs (q, p)) = p \<union> set (map qname new)"
      "distinct (map qname new)" "set (map qname new) \<inter> p = {}"
      "\<forall>i \<in> set new. currentDepth i = currentDepth cur + 1 \<and> qname i \<noteq> []
             \<and> (\<exists>r \<in> set rs. \<exists>d. nxt r = Some (qname i, d))"
      by blast
    then show ?thesis using None by (intro exI [of _ new]) auto
  next
    case (Some a)
    obtain n d where a: "a = (n, d)" by (cases a)
    show ?thesis
    proof (cases "n \<noteq> [] \<and> n \<notin> p")
      case True
      let ?it = "\<lparr>qname = n, currentDepth = currentDepth cur + 1, path = path cur @ [d]\<rparr>"
      from Cons.IH [of "q @ [?it]" "insert n p"] obtain new where new:
        "fst (enqueueAll nxt cur rs (q @ [?it], insert n p)) = (q @ [?it]) @ new"
        "snd (enqueueAll nxt cur rs (q @ [?it], insert n p)) = insert n p \<union> set (map qname new)"
        "distinct (map qname new)" "set (map qname new) \<inter> insert n p = {}"
        "\<forall>i \<in> set new. currentDepth i = currentDepth cur + 1 \<and> qname i \<noteq> []
             \<and> (\<exists>r \<in> set rs. \<exists>d. nxt r = Some (qname i, d))"
        by blast
      have e: "enqueueAll nxt cur (r # rs) (q, p) = enqueueAll nxt cur rs (q @ [?it], insert n p)"
        using Some a True by simp
      show ?thesis
      proof (intro exI [of _ "?it # new"] conjI)
        show "fst (enqueueAll nxt cur (r # rs) (q, p)) = q @ ?it # new" using e new(1) by simp
        show "snd (enqueueAll nxt cur (r # rs) (q, p)) = p \<union> set (map qname (?it # new))"
          using e new(2) by auto
        show "distinct (map qname (?it # new))" using new(3,4) by auto
        show "set (map qname (?it # new)) \<inter> p = {}" using new(4) True by auto
        show "\<forall>i \<in> set (?it # new). currentDepth i = currentDepth cur + 1 \<and> qname i \<noteq> []
             \<and> (\<exists>r' \<in> set (r # rs). \<exists>d. nxt r' = Some (qname i, d))"
          using new(5) True Some a by auto
      qed
    next
      case False
      from Cons.IH [of q p] obtain new where
        "fst (enqueueAll nxt cur rs (q, p)) = q @ new"
        "snd (enqueueAll nxt cur rs (q, p)) = p \<union> set (map qname new)"
        "distinct (map qname new)" "set (map qname new) \<inter> p = {}"
        "\<forall>i \<in> set new. currentDepth i = currentDepth cur + 1 \<and> qname i \<noteq> []
             \<and> (\<exists>r \<in> set rs. \<exists>d. nxt r = Some (qname i, d))"
        by blast
      moreover have "enqueueAll nxt cur (r # rs) (q, p) = enqueueAll nxt cur rs (q, p)"
        using Some a False by auto
      ultimately show ?thesis by (intro exI [of _ new]) auto
    qed
  qed
qed

lemma enqueueAll_mono: "p \<subseteq> snd (enqueueAll nxt cur rs (q, p))"
  using enqueueAll_shape [of nxt cur rs q p] by auto

text \<open>
  After the pass every non-empty next concept of a relation is in the processed set.
\<close>

lemma enqueueAll_covers:
  "r \<in> set rs \<Longrightarrow> nxt r = Some (n, d) \<Longrightarrow> n \<noteq> [] \<Longrightarrow> n \<in> snd (enqueueAll nxt cur rs (q, p))"
proof (induction rs arbitrary: q p)
  case Nil
  then show ?case by simp
next
  case (Cons r' rs)
  show ?case
  proof (cases "r = r'")
    case True
    show ?thesis
    proof (cases "n \<in> p")
      case True
      then show ?thesis using enqueueAll_mono by blast
    next
      case False
      then have "enqueueAll nxt cur (r' # rs) (q, p)
          = enqueueAll nxt cur rs (q @ [\<lparr>qname = n, currentDepth = currentDepth cur + 1,
                            path = path cur @ [d]\<rparr>], insert n p)"
        using \<open>r = r'\<close> Cons.prems by simp
      then show ?thesis using enqueueAll_mono [of "insert n p"] by auto
    qed
  next
    case False
    then have rin: "r \<in> set rs" using Cons.prems by simp
    show ?thesis
    proof (cases "nxt r'")
      case None
      then show ?thesis using Cons.IH [OF rin Cons.prems(2,3)] by simp
    next
      case (Some a)
      then show ?thesis using Cons.IH [OF rin Cons.prems(2,3)] by (cases a) auto
    qed
  qed
qed

lemma relatedNext_linked:
  "r \<in> set (relations g) \<Longrightarrow> relatedNext a r = Some (n, d) \<Longrightarrow> directlyLinked g a n"
  by (auto simp: relatedNext_def directlyLinked_def split: if_splits)

lemma prerequisiteNext_linked:
  "r \<in> set (relations g) \<Longrightarrow> prerequisiteNext a r = Some (n, d) \<Longrightarrow> directlyLinked g a n"
  by (auto simp: prerequisiteNext_def directlyLinked_def split: if_splits)

lemma directlyLinked_next:
  assumes "directlyLinked g a b"
  shows "\<exists>r \<in> set (relations g). \<exists>d. relatedNext a r = Some (b, d) \<or> prerequisiteNext a r = Some (b, d)"
proof -
  from assms obtain r where r: "r \<in> set (relations g)"
    "relationType r = ''related_to'' \<or> relationType r = ''prerequisite_for''"
    "(rel_from r = a \<and> rel_to r = b) \<or> (rel_from r = b \<and> rel_to r = a)"
    by (auto simp: directlyLinked_def)
  then have "\<exists>d. relatedNext a r = Some (b, d) \<or> prerequisiteNext a r = Some (b, d)"
    by (auto simp: relatedNext_def prerequisiteNext_def)
  then show ?thesis using r(1) by blast
qed

lemma enqueueNeighbours_shape:
  "\<exists>new. fst (enqueueNeighbours g cur (q, p)) = q @ new
       \<and> snd (enqueueNeighbours g cur (q, p)) = p \<union> set (map qname new)
       \<and> distinct (map qname new) \<and> set (map qname new) \<inter> p = {}
       \<and> (\<forall>i \<in> set new. currentDepth i = currentDepth cur + 1 \<and> qname i \<noteq> []
             \<and> directlyLinked g (qname cur) (qname i))"
proof -
  let ?s1 = "enqueueAll (relatedNext (qname cur)) cur (relations g) (q, p)"
  from enqueueAll_shape [of "relatedNext (qname cur)" cur "relations g" q p]
  obtain n1 where n1: "fst ?s1 = q @ n1" "snd ?s1 = p \<union> set (map qname n1)"
    "distinct (map qname n1)" "set (map qname n1) \<inter> p = {}"
    "\<forall>i \<in> set n1. currentDepth i = currentDepth cur + 1 \<and> qname i \<noteq> []
         \<and> (\<exists>r \<in> set (relations g). \<exists>d. relatedNext (qname cur) r = Some (qname i, d))"
    by blast
  let ?s2 = "enqueueAll (prerequisiteNext (qname cur)) cur (relations g) (fst ?s1, snd ?s1)"
  from enqueueAll_shape [of "prerequisiteNext (qname cur)" cur "relations g" "fst ?s1" "snd ?s1"]
  obtain n2 where n2: "fst ?s2 = fst ?s1 @ n2" "snd ?s2 = snd ?s1 \<union> set (map qname n2)"
    "distinct (map qname n2)" "set (map qname n2) \<inter> snd ?s1 = {}"
    "\<forall>i \<in> set n2. currentDepth i = currentDepth cur + 1 \<and> qname i \<noteq> []
         \<and> (\<exists>r \<in> set (relations g). \<exists>d. prerequisiteNext (qname cur) r = Some (qname i, d))"
    by blast
  have e: "enqueueNeighbours g cur (q, p) = ?s2" by (simp add: enqueueNeighbours_def)
  show ?thesis
  proof (intro exI [of _ "n1 @ n2"] conjI)
    show "fst (enqueueNeighbours g cur (q, p)) = q @ n1 @ n2" using e n1(1) n2(1) by simp
    show "snd (enqueueNeighbours g cur (q, p)) = p \<union> set (map qname (n1 @ n2))"
      using e n1(2) n2(2) by auto
    show "distinct (map qname (n1 @ n2))" using n1(2,3) n2(3,4) by auto
    show "set (map qname (n1 @ n2)) \<inter> p = {}" using n1(2,4) n2(4) by auto
    show "\<forall>i \<in> set (n1 @ n2). currentDepth i = currentDepth cur + 1 \<and> qname i \<noteq> []
             \<and> directlyLinked g (qname cur) (qname i)"
      using n1(5) n2(5) relatedNext_linked prerequisiteNext_linked by (auto; blast)
  qed
qed

lemma enqueueNeighbours_covers:
  assumes "directlyLinked g (qname cur) b" and "b \<noteq> []"
  shows "b \<in> snd (enqueueNeighbours g cur (q, p))"
proof -
  let ?s1 = "enqueueAll (relatedNext (qname cur)) cur (relations g) (q, p)"
  have e: "enqueueNeighbours g cur (q, p)
           = enqueueAll (prerequisiteNext (qname cur)) cur (relations g) (fst ?s1, snd ?s1)"
    by (simp add: enqueueNeighbours_def)
  from directlyLinked_next [OF assms(1)] obtain r d where r: "r \<in> set (relations g)"
    "relatedNext (qname cur) r = Some (b, d) \<or> prerequisiteNext (qname cur) r = Some (b, d)"
    by blast
  from r(2) show ?thesis
  proof
    assume "relatedNext (qname cur) r = Some (b, d)"
    from enqueueAll_covers [where nxt = "relatedNext (qname cur)", OF r(1) this assms(2)]
    have "b \<in> snd ?s1" .
    then show ?thesis unfolding e using enqueueAll_mono by blast
  next
    assume "prerequisiteNext (qname cur) r = Some (b, d)"
    from enqueueAll_covers [where nxt = "prerequisiteNext (qname cur)", OF r(1) this assms(2)]
    show ?thesis unfolding e .
  qed
qed

lemma findEntity_Some:
  "findEntity g n t = Some e \<Longrightarrow> e \<in> set (entities g) \<and> name e = n \<and> entityType e = t"
  by (auto simp: findEntity_def find_Some_iff)

lemma processQueue_skip:
  assumes "(currentDepth cur > m \<and> qname cur \<noteq> c) \<or> findEntity g (qname cur) ''concept'' = None"
  shows "processQueue g c m (cur # q) p rs = processQueue g c m q p rs"
  using assms by (auto simp: processQueue.simps)

lemma processQueue_visit:
  assumes "\<not> (currentDepth cur > m \<and> qname cur \<noteq> c)"
    and "findEntity g (qname cur) ''concept'' = Some e"
  shows "processQueue g c m (cur # q) p rs
         = processQueue g c m (fst (enqueueNeighbours g cur (q, p)))
             (snd (enqueueNeighbours g cur (q, p)))
             (if qname cur \<noteq> c then rs @ [relatedRecord g cur e] else rs)"
  using assms by (subst processQueue.simps(2)) auto

text \<open>
  The loop either stops on the empty queue, skips the first item (too deep, or no concept
  of that name), or visits it: induction over the run of the loop in these three cases.
\<close>

lemma processQueue_steps [case_names empty skip visit]:
  assumes empty: "\<And>p rs. P [] p rs"
    and skip: "\<And>cur q p rs.
        (currentDepth cur > m \<and> qname cur \<noteq> c) \<or> findEntity g (qname cur) ''concept'' = None
        \<Longrightarrow> P q p rs \<Longrightarrow> P (cur # q) p rs"
    and visit: "\<And>cur q p rs e.
        \<not> (currentDepth cur > m \<and> qname cur \<noteq> c) \<Longrightarrow> findEntity g (qname cur) ''concept'' = Some e
        \<Longrightarrow> P (fst (enqueueNeighbours g cur (q, p))) (snd (enqueueNeighbours g cur (q, p)))
              (if qname cur \<noteq> c then rs @ [relatedRecord g cur e] else rs)
        \<Longrightarrow> P (cur # q) p rs"
  shows "P q p rs"
proof -
  have "g' = g \<Longrightarrow> c' = c \<Longrightarrow> m' = m \<Longrightarrow> P q p rs" for g' c' m'
  proof (induction g' c' m' q p rs rule: processQueue.induct)
    case (1 graph conceptName maxDepth processedConcepts relatedConcepts)
    show ?case by (rule empty)
  next
    case (2 graph conceptName maxDepth cur queue processedConcepts relatedConcepts)
    note eqs = "2.prems"
    show ?case
    proof (cases "currentDepth cur > m \<and> qname cur \<noteq> c")
      case True
      then have "P queue processedConcepts relatedConcepts"
        using "2.IH"(1) eqs by simp
      then show ?thesis using True by (intro skip) simp_all
    next
      case False
      show ?thesis
      proof (cases "findEntity g (qname cur) ''concept''")
        case None
        then have "P queue processedConcepts relatedConcepts"
          using "2.IH"(2) eqs False by simp
        then show ?thesis using None by (intro skip) simp_all
      next
        case (Some e)
        have "P (fst (enqueueNeighbours g cur (queue, processedConcepts)))
                (snd (enqueueNeighbours g cur (queue, processedConcepts)))
                (if qname cur \<noteq> c then relatedConcepts @ [relatedRecord g cur e] else relatedConcepts)"
          using "2.IH"(3) [of e] eqs False Some by (clarsimp split del: if_split)
        then show ?thesis using False Some by (intro visit)
      qed
    qed
  qed
  then show ?thesis by simp
qed

lemma processQueue_extends: "\<exists>more. processQueue g c m q p rs = rs @ more"
proof (induction q p rs rule: processQueue_steps [where g = g and c = c and m = m])
  case (empty p rs)
  show ?case by (simp add: processQueue.simps)
next
  case (skip cur q p rs)
  then show ?case by (simp add: processQueue_skip)
next
  case (visit cur q p rs e)
  then show ?case by (auto simp: processQueue_visit)
qed

lemma processQueue_keeps: "r \<in> set rs \<Longrightarrow> r \<in> set (processQueue g c m q p rs)"
  using processQueue_extends [of g c m q p rs] by auto

lemma processQueue_depth_bound:
  "\<forall>r \<in> set rs. depth r \<le> m \<Longrightarrow> \<forall>r \<in> set (processQueue g c m q p rs). depth r \<le> m"
proof (induction q p rs rule: processQueue_steps [where g = g and c = c and m = m])
  case (empty p rs)
  then show ?case by (simp add: processQueue.simps)
next
  case (skip cur q p rs)
  then show ?case by (simp add: processQueue_skip)
next
  case (visit cur q p rs e)
  have "\<forall>r \<in> set (if qname cur \<noteq> c then rs @ [relatedRecord g cur e] else rs). depth r \<le> m"
    using visit.prems visit.hyps(1) by (auto simp: relatedRecord_def)
  from visit.IH [OF this] show ?case using visit.hyps by (simp add: processQueue_visit)
qed

text \<open>
  Names in the queue and names of results are distinct, disjoint and processed; so every
  name is recorded at most once.
\<close>

lemma processQueue_distinct:
  assumes "distinct (map qname q)" and "distinct (map cname rs)"
    and "set (map qname q) \<inter> set (map cname rs) = {}"
    and "set (map qname q) \<subseteq> p" and "set (map cname rs) \<subseteq> p"
  shows "distinct (map cname (processQueue g c m q p rs))"
  using assms
proof (induction q p rs rule: processQueue_steps [where g = g and c = c and m = m])
  case (empty p rs)
  then show ?case by (simp add: processQueue.simps)
next
  case (skip cur q p rs)
  have "distinct (map cname (processQueue g c m q p rs))"
    using skip.prems by (intro skip.IH) auto
  then show ?case using skip.hyps by (simp add: processQueue_skip)
next
  case (visit cur q p rs e)
  let ?rs' = "if qname cur \<noteq> c then rs @ [relatedRecord g cur e] else rs"
  from enqueueNeighbours_shape [of g cur q p] obtain new where new:
    "fst (enqueueNeighbours g cur (q, p)) = q @ new"
    "snd (enqueueNeighbours g cur (q, p)) = p \<union> set (map qname new)"
    "distinct (map qname new)" "set (map qname new) \<inter> p = {}"
    by blast
  have ce: "cname (relatedRecord g cur e) = qname cur"
    using findEntity_Some [OF visit.hyps(2)] by (simp add: cname_def relatedRecord_def)
  have rs': "set (map cname ?rs') \<subseteq> set (map cname rs) \<union> {qname cur}"
    using ce by auto
  have curp: "qname cur \<in> p" "qname cur \<notin> set (map qname q)" "qname cur \<notin> set (map cname rs)"
    using visit.prems by auto
  have Q: "set (map qname q) \<subseteq> p" and R: "set (map cname rs) \<subseteq> p"
    and QR: "set (map qname q) \<inter> set (map cname rs) = {}"
    using visit.prems by auto
  have qn: "set (map qname (q @ new)) = set (map qname q) \<union> set (map qname new)" by simp
  have "distinct (map cname (processQueue g c m (q @ new) (p \<union> set (map qname new)) ?rs'))"
    unfolding new(1,2) [symmetric]
  proof (rule visit.IH)
    have "distinct (map qname (q @ new))"
      using visit.prems(1) new(3,4) Q by (simp only: map_append distinct_append) auto
    then show "distinct (map qname (fst (enqueueNeighbours g cur (q, p))))"
      unfolding new(1) .
    show "distinct (map cname ?rs')" using visit.prems(2) curp(3) ce by auto
    have "set (map qname (q @ new)) \<inter> set (map cname ?rs') = {}"
      unfolding qn using rs' Q R QR new(4) curp by blast
    then show "set (map qname (fst (enqueueNeighbours g cur (q, p)))) \<inter> set (map cname ?rs') = {}"
      unfolding new(1) .
    have "set (map qname (q @ new)) \<subseteq> p \<union> set (map qname new)"
      unfolding qn using Q by blast
    then show "set (map qname (fst (enqueueNeighbours g cur (q, p)))) \<subseteq> snd (enqueueNeighbours g cur (q, p))"
      unfolding new(1,2) .
    have "set (map cname ?rs') \<subseteq> p \<union> set (map qname new)"
      using rs' R curp(1) by blast
    then show "set (map cname ?rs') \<subseteq> snd (enqueueNeighbours g cur (q, p))"
      unfolding new(2) .
  qed
  then show ?case using visit.hyps new(1,2) by (simp add: processQueue_visit)
qed

text \<open>
  An item in the queue that is within the depth and names a concept other than the seed is
  recorded with its depth and path.
\<close>

lemma processQueue_records_item:
  assumes "it \<in> set q" and "currentDepth it \<le> m" and "qname it \<noteq> c"
    and "findEntity g (qname it) ''concept'' = Some e"
  shows "\<exists>r \<in> set (processQueue g c m q p rs).
           concept r = e \<and> depth r = currentDepth it \<and> relationPath r = path it"
  using assms
proof (induction q p rs rule: processQueue_steps [where g = g and c = c and m = m])
  case (empty p rs)
  then show ?case by simp
next
  case (skip cur q p rs)
  have "it \<noteq> cur" using skip.hyps skip.prems by auto
  then have "it \<in> set q" using skip.prems by simp
  from skip.IH [OF this skip.prems(2-4)] show ?case using skip.hyps by (simp add: processQueue_skip)
next
  case (visit cur q p rs e')
  let ?rs' = "if qname cur \<noteq> c then rs @ [relatedRecord g cur e'] else rs"
  have eq: "processQueue g c m (cur # q) p rs
      = processQueue g c m (fst (enqueueNeighbours g cur (q, p)))
             (snd (enqueueNeighbours g cur (q, p))) ?rs'"
    using visit.hyps by (simp add: processQueue_visit)
  show ?case
  proof (cases "it = cur")
    case True
    then have "relatedRecord g cur e \<in> set ?rs'" using visit.prems visit.hyps by simp
    then have "relatedRecord g cur e \<in> set (processQueue g c m (cur # q) p rs)"
      unfolding eq by (rule processQueue_keeps)
    then show ?thesis using True by (intro bexI [of _ "relatedRecord g cur e"]) (simp_all add: relatedRecord_def)
  next
    case False
    from enqueueNeighbours_shape [of g cur q p] obtain new where
      "fst (enqueueNeighbours g cur (q, p)) = q @ new" by blast
    then have "it \<in> set (fst (enqueueNeighbours g cur (q, p)))" using False visit.prems(1) by simp
    from visit.IH [OF this visit.prems(2-4)] show ?thesis unfolding eq .
  qed
qed

text \<open>
  A result is an old one, or belongs to an item of the queue, or is at least one level
  below the shallowest item of the queue and has a name that was not processed yet.
\<close>

lemma processQueue_later_depth:
  assumes "\<forall>it \<in> set q. k \<le> currentDepth it" and "r \<in> set (processQueue g c m q p rs)"
  shows "r \<in> set rs \<or> (\<exists>it \<in> set q. qname it = cname r \<and> currentDepth it = depth r)
         \<or> (k + 1 \<le> depth r \<and> cname r \<notin> p)"
  using assms
proof (induction q p rs rule: processQueue_steps [where g = g and c = c and m = m])
  case (empty p rs)
  then show ?case by (simp add: processQueue.simps)
next
  case (skip cur q p rs)
  have "r \<in> set (processQueue g c m q p rs)"
    using skip.prems(2) skip.hyps by (simp add: processQueue_skip)
  moreover have "\<forall>it \<in> set q. k \<le> currentDepth it" using skip.prems(1) by simp
  ultimately have "r \<in> set rs \<or> (\<exists>it \<in> set q. qname it = cname r \<and> currentDepth it = depth r)
         \<or> (k + 1 \<le> depth r \<and> cname r \<notin> p)"
    by (rule skip.IH [rotated])
  then show ?case by auto
next
  case (visit cur q p rs e)
  let ?rs' = "if qname cur \<noteq> c then rs @ [relatedRecord g cur e] else rs"
  from enqueueNeighbours_shape [of g cur q p] obtain new where new:
    "fst (enqueueNeighbours g cur (q, p)) = q @ new"
    "snd (enqueueNeighbours g cur (q, p)) = p \<union> set (map qname new)"
    "set (map qname new) \<inter> p = {}"
    "\<forall>i \<in> set new. currentDepth i = currentDepth cur + 1"
    by blast
  have ce: "cname (relatedRecord g cur e) = qname cur" "depth (relatedRecord g cur e) = currentDepth cur"
    using findEntity_Some [OF visit.hyps(2)] by (simp_all add: cname_def relatedRecord_def)
  have kcur: "k \<le> currentDepth cur" using visit.prems(1) by simp
  have all: "\<forall>it \<in> set (fst (enqueueNeighbours g cur (q, p))). k \<le> currentDepth it"
    unfolding new(1) using visit.prems(1) new(4) kcur by auto
  have rin: "r \<in> set (processQueue g c m (fst (enqueueNeighbours g cur (q, p)))
             (snd (enqueueNeighbours g cur (q, p))) ?rs')"
    using visit.prems(2) visit.hyps by (simp add: processQueue_visit)
  from visit.IH [OF all rin] consider
    (old) "r \<in> set ?rs'"
  | (queued) it where "it \<in> set (q @ new)" "qname it = cname r" "currentDepth it = depth r"
  | (later) "k + 1 \<le> depth r" "cname r \<notin> p \<union> set (map qname new)"
    unfolding new(1,2) by blast
  then show ?case
  proof cases
    case old
    then have "r \<in> set rs \<or> r = relatedRecord g cur e" by (auto split: if_splits)
    then show ?thesis using ce by auto
  next
    case queued
    show ?thesis
    proof (cases "it \<in> set q")
      case True
      then show ?thesis using queued by auto
    next
      case False
      then have n: "it \<in> set new" using queued(1) by simp
      then have "currentDepth it = currentDepth cur + 1" using new(4) by simp
      moreover have "qname it \<notin> p" using n new(3) by auto
      ultimately show ?thesis using queued(2,3) kcur by simp
    qed
  next
    case later
    then show ?thesis by simp
  qed
qed

text \<open>
  A concept linked to an item of the queue, with nothing deeper in front of that item, is
  recorded at most one level below the item, unless it is the seed.
\<close>

lemma processQueue_reaches_neighbour:
  assumes "q = pre @ it # post" and "\<forall>x \<in> set pre. currentDepth x \<le> currentDepth it"
    and "currentDepth it + 1 \<le> m"
    and "findEntity g (qname it) ''concept'' \<noteq> None"
    and "directlyLinked g (qname it) z" and "z \<noteq> []" and "z \<noteq> c"
    and "findEntity g z ''concept'' = Some ez"
    and "z \<notin> p \<or> (\<exists>it' \<in> set q. qname it' = z \<and> currentDepth it' \<le> currentDepth it + 1)"
  shows "\<exists>r \<in> set (processQueue g c m q p rs). concept r = ez \<and> depth r \<le> currentDepth it + 1"
  using assms
proof (induction q p rs arbitrary: pre post rule: processQueue_steps [where g = g and c = c and m = m])
  case (empty p rs)
  then show ?case by simp
next
  case (skip cur q p rs)
  have notit: "cur \<noteq> it" using skip.hyps skip.prems(3,4) by auto
  then obtain pre' where pre: "pre = cur # pre'" "q = pre' @ it # post"
    using skip.prems(1) by (cases pre) auto
  have "\<not> (qname cur = z \<and> currentDepth cur \<le> currentDepth it + 1)"
    using skip.hyps skip.prems(3,7,8) by auto
  then have z: "z \<notin> p \<or> (\<exists>it' \<in> set q. qname it' = z \<and> currentDepth it' \<le> currentDepth it + 1)"
    using skip.prems(9) by auto
  have "\<forall>x \<in> set pre'. currentDepth x \<le> currentDepth it" using skip.prems(2) pre(1) by simp
  from skip.IH [OF pre(2) this skip.prems(3-8) z]
  show ?case using skip.hyps by (simp add: processQueue_skip)
next
  case (visit cur q p rs e)
  let ?rs' = "if qname cur \<noteq> c then rs @ [relatedRecord g cur e] else rs"
  let ?F = "processQueue g c m (cur # q) p rs"
  have eq: "?F = processQueue g c m (fst (enqueueNeighbours g cur (q, p)))
             (snd (enqueueNeighbours g cur (q, p))) ?rs'"
    using visit.hyps by (simp add: processQueue_visit)
  from enqueueNeighbours_shape [of g cur q p] obtain new where new:
    "fst (enqueueNeighbours g cur (q, p)) = q @ new"
    "snd (enqueueNeighbours g cur (q, p)) = p \<union> set (map qname new)"
    "\<forall>i \<in> set new. currentDepth i = currentDepth cur + 1"
    by blast
  show ?case
  proof (cases "\<exists>it' \<in> set (cur # q). qname it' = z \<and> currentDepth it' \<le> currentDepth it + 1")
    case True
    then obtain it' where it': "it' \<in> set (cur # q)" "qname it' = z"
      "currentDepth it' \<le> currentDepth it + 1" by blast
    have "\<exists>r \<in> set ?F. concept r = ez \<and> depth r = currentDepth it' \<and> relationPath r = path it'"
      using it' visit.prems(3,7,8) by (intro processQueue_records_item) auto
    then show ?thesis using it'(3) by auto
  next
    case False
    then have zp: "z \<notin> p" using visit.prems(9) by blast
    have queued: "\<exists>r \<in> set ?F. concept r = ez \<and> depth r \<le> currentDepth it + 1"
      if "it' \<in> set new" "qname it' = z" "currentDepth cur \<le> currentDepth it" for it'
    proof -
      have d: "currentDepth it' = currentDepth cur + 1" using that(1) new(3) by simp
      have "\<exists>r \<in> set ?F. concept r = ez \<and> depth r = currentDepth it' \<and> relationPath r = path it'"
        unfolding eq new(1)
        using that d visit.prems(3,7,8) by (intro processQueue_records_item) auto
      then show ?thesis using d that(3) by auto
    qed
    show ?thesis
    proof (cases pre)
      case Nil
      then have cur: "cur = it" using visit.prems(1) by simp
      have "z \<in> snd (enqueueNeighbours g cur (q, p))"
        using visit.prems(5,6) cur by (intro enqueueNeighbours_covers) auto
      then have "z \<in> set (map qname new)" using zp new(2) by auto
      then obtain it' where "it' \<in> set new" "qname it' = z" by auto
      then show ?thesis using queued cur by auto
    next
      case (Cons x pre')
      then have pre: "cur = x" "q = pre' @ it # post" using visit.prems(1) by auto
      have dcur: "currentDepth cur \<le> currentDepth it" using visit.prems(2) Cons pre(1) by simp
      show ?thesis
      proof (cases "z \<in> set (map qname new)")
        case True
        then obtain it' where "it' \<in> set new" "qname it' = z" by auto
        then show ?thesis using queued dcur by auto
      next
        case False
        then have z: "z \<notin> snd (enqueueNeighbours g cur (q, p))
             \<or> (\<exists>it' \<in> set (fst (enqueueNeighbours g cur (q, p))).
                    qname it' = z \<and> currentDepth it' \<le> currentDepth it + 1)"
          using zp new(2) by auto
        have q': "fst (enqueueNeighbours g cur (q, p)) = pre' @ it # (post @ new)"
          using new(1) pre(2) by simp
        have "\<forall>x \<in> set pre'. currentDepth x \<le> currentDepth it"
          using visit.prems(2) Cons by simp
        from visit.IH [OF q' this visit.prems(3-8) z] show ?thesis unfolding eq .
      qed
    qed
  qed
qed

lemma example_chain: "findRelatedConcepts chainGraph ''Limits'' 2 = Inr chainResult"
  by code_simp

text \<open>
  Claim C4 as stated fails where the graph has more relations than the chain: with limits
  also related to integrals directly, the graph still contains the three concepts and the
  two relations of the chain, and integrals are returned at depth 1, not 2. It also fails
  for a concept named by the empty string, which the traversal never enqueues: in
  \<open>blankGraph\<close> nothing is returned.
\<close>

theorem shortcut_gives_depth_one:
  "findRelatedConcepts shortcutGraph ''Limits'' 2 = Inr shortcutResult
   \<and> map cname (relatedConcepts shortcutResult) = [''Derivatives'', ''Integrals'']
   \<and> map depth (relatedConcepts shortcutResult) = [1, 1]
   \<and> map name (entities shortcutGraph) = [''Limits'', ''Derivatives'', ''Integrals'']
   \<and> map entityType (entities shortcutGraph) = [''concept'', ''concept'', ''concept'']
   \<and> mkRelation ''Limits'' ''Derivatives'' ''related_to'' \<in> set (relations shortcutGraph)
   \<and> mkRelation ''Derivatives'' ''Integrals'' ''prerequisite_for'' \<in> set (relations shortcutGraph)
   \<and> findRelatedConcepts blankGraph ''Limits'' 2
       = Inr \<lparr>rr_concept = mkEntity ''Limits'' ''concept'' [], relatedConcepts = [],
              totalRelated = 0, summaryMaxDepth = 2\<rparr>"
proof -
  have "findRelatedConcepts shortcutGraph ''Limits'' 2 = Inr shortcutResult"
    by code_simp
  moreover have "map cname (relatedConcepts shortcutResult) = [''Derivatives'', ''Integrals'']"
    by (simp add: shortcutResult_def cname_def mkEntity_def)
  moreover have "map depth (relatedConcepts shortcutResult) = [1, 1]"
    by (simp add: shortcutResult_def)
  moreover have "map name (entities shortcutGraph) = [''Limits'', ''Derivatives'', ''Integrals'']"
    by (simp add: shortcutGraph_def chainGraph_def mkEntity_def)
  moreover have "map entityType (entities shortcutGraph) = [''concept'', ''concept'', ''concept'']"
    by (simp add: shortcutGraph_def chainGraph_def mkEntity_def)
  moreover have "mkRelation ''Limits'' ''Derivatives'' ''related_to'' \<in> set (relations shortcutGraph)"
    by (simp add: shortcutGraph_def chainGraph_def)
  moreover have "mkRelation ''Derivatives'' ''Integrals'' ''prerequisite_for'' \<in> set (relations shortcutGraph)"
    by (simp add: shortcutGraph_def chainGraph_def)
  moreover have "findRelatedConcepts blankGraph ''Limits'' 2
       = Inr \<lparr>rr_concept = mkEntity ''Limits'' ''concept'' [], relatedConcepts = [],
              totalRelated = 0, summaryMaxDepth = 2\<rparr>"
    by code_simp
  ultimately show ?thesis by (intro conjI)
qed

lemma findRelatedConcepts_Inr:
  assumes "findRelatedConcepts g c m = Inr res"
  shows "findEntity g c ''concept'' \<noteq> None"
    and "relatedConcepts res = sort_key depth (processQueue g c m [seedItem c] {c} [])"
  using assms by (auto simp: findRelatedConcepts_def Let_def split: option.splits)

lemma first_step:
  assumes "findEntity g c ''concept'' \<noteq> None"
  shows "\<exists>new. processQueue g c m [seedItem c] {c} [] = processQueue g c m new ({c} \<union> set (map qname new)) []
           \<and> set (map qname new) \<inter> {c} = {}
           \<and> (\<forall>i \<in> set new. currentDepth i = 1 \<and> qname i \<noteq> [] \<and> directlyLinked g c (qname i))
           \<and> (\<forall>b. directlyLinked g c b \<and> b \<noteq> [] \<longrightarrow> b \<in> {c} \<union> set (map qname new))"
proof -
  from assms obtain e where e: "findEntity g (qname (seedItem c)) ''concept'' = Some e"
    by (auto simp: seedItem_def)
  from enqueueNeighbours_shape [of g "seedItem c" "[]" "{c}"] obtain new where new:
    "fst (enqueueNeighbours g (seedItem c) ([], {c})) = [] @ new"
    "snd (enqueueNeighbours g (seedItem c) ([], {c})) = {c} \<union> set (map qname new)"
    "set (map qname new) \<inter> {c} = {}"
    "\<forall>i \<in> set new. currentDepth i = currentDepth (seedItem c) + 1 \<and> qname i \<noteq> []
         \<and> directlyLinked g (qname (seedItem c)) (qname i)"
    by blast
  have "processQueue g c m [seedItem c] {c} []
        = processQueue g c m (fst (enqueueNeighbours g (seedItem c) ([], {c})))
            (snd (enqueueNeighbours g (seedItem c) ([], {c})))
            (if qname (seedItem c) \<noteq> c then [] @ [relatedRecord g (seedItem c) e] else [])"
    by (rule processQueue_visit [OF _ e]) (simp add: seedItem_def)
  then have eq: "processQueue g c m [seedItem c] {c} []
        = processQueue g c m new ({c} \<union> set (map qname new)) []"
    using new(1,2) by (simp add: seedItem_def)
  have cov: "b \<in> {c} \<union> set (map qname new)" if "directlyLinked g c b" "b \<noteq> []" for b
    using enqueueNeighbours_covers [of g "seedItem c" b "[]" "{c}"] that new(2)
    by (simp add: seedItem_def)
  show ?thesis
    using eq new(3,4) cov by (intro exI [of _ new]) (auto simp: seedItem_def)
qed

lemma chain_found:
  assumes c: "findEntity g c ''concept'' \<noteq> None"
    and y: "y \<noteq> []" "c \<noteq> y" "findEntity g y ''concept'' = Some ey"
    and z: "z \<noteq> []" "c \<noteq> z" "findEntity g z ''concept'' = Some ez"
    and cy: "directlyLinked g c y" and yz: "directlyLinked g y z"
  shows "(\<exists>ry \<in> set (processQueue g c 2 [seedItem c] {c} []). cname ry = y \<and> depth ry = 1)
       \<and> (\<exists>rz \<in> set (processQueue g c 2 [seedItem c] {c} []).
             cname rz = z \<and> depth rz = (if directlyLinked g c z then 1 else 2))"
proof -
  let ?F = "processQueue g c 2 [seedItem c] {c} []"
  from first_step [OF c, of 2] obtain new where new:
    "?F = processQueue g c 2 new ({c} \<union> set (map qname new)) []"
    "\<forall>i \<in> set new. currentDepth i = 1 \<and> qname i \<noteq> [] \<and> directlyLinked g c (qname i)"
    "\<forall>b. directlyLinked g c b \<and> b \<noteq> [] \<longrightarrow> b \<in> {c} \<union> set (map qname new)"
    by blast
  let ?p = "{c} \<union> set (map qname new)"
  have ny: "name ey = y" and nz: "name ez = z"
    using findEntity_Some [OF y(3)] findEntity_Some [OF z(3)] by simp_all
  have "y \<in> set (map qname new)" using new(3) cy y(1,2) by auto
  then obtain ity where ity: "ity \<in> set new" "qname ity = y" by auto
  then have dy: "currentDepth ity = 1" using new(2) by simp
  have "\<exists>r \<in> set ?F. concept r = ey \<and> depth r = currentDepth ity \<and> relationPath r = path ity"
    unfolding new(1) using ity dy y by (intro processQueue_records_item) auto
  then have Y: "\<exists>ry \<in> set ?F. cname ry = y \<and> depth ry = 1"
    using dy ny by (auto simp: cname_def)
  have Z: "\<exists>rz \<in> set ?F. cname rz = z \<and> depth rz = (if directlyLinked g c z then 1 else 2)"
  proof (cases "directlyLinked g c z")
    case True
    then have "z \<in> set (map qname new)" using new(3) z(1,2) by auto
    then obtain itz where itz: "itz \<in> set new" "qname itz = z" by auto
    then have dz: "currentDepth itz = 1" using new(2) by simp
    have "\<exists>r \<in> set ?F. concept r = ez \<and> depth r = currentDepth itz \<and> relationPath r = path itz"
      unfolding new(1) using itz dz z by (intro processQueue_records_item) auto
    then show ?thesis using dz nz True by (auto simp: cname_def)
  next
    case False
    have zp: "z \<notin> ?p" using False new(2) z(2) by auto
    from split_list [OF ity(1)] obtain pre post where sp: "new = pre @ ity # post" by blast
    have pre: "\<forall>x \<in> set pre. currentDepth x \<le> currentDepth ity" using new(2) sp dy by auto
    have "\<exists>r \<in> set (processQueue g c 2 new ?p []). concept r = ez \<and> depth r \<le> currentDepth ity + 1"
    proof (rule processQueue_reaches_neighbour [OF sp pre])
      show "currentDepth ity + 1 \<le> 2" using dy by simp
      show "findEntity g (qname ity) ''concept'' \<noteq> None" using ity(2) y(3) by simp
      show "directlyLinked g (qname ity) z" using ity(2) yz by simp
      show "z \<noteq> []" by (rule z(1))
      show "z \<noteq> c" using z(2) by simp
      show "findEntity g z ''concept'' = Some ez" by (rule z(3))
      show "z \<notin> ?p \<or> (\<exists>it' \<in> set new. qname it' = z \<and> currentDepth it' \<le> currentDepth ity + 1)"
        using zp by simp
    qed
    then obtain r where r: "r \<in> set ?F" "concept r = ez" "depth r \<le> 2"
      unfolding new(1) [symmetric] using dy by auto
    have cz: "cname r = z" using r(2) nz by (simp add: cname_def)
    have "\<forall>it \<in> set new. 1 \<le> currentDepth it" using new(2) by simp
    from processQueue_later_depth [OF this r(1) [unfolded new(1)]]
    have "(\<exists>it \<in> set new. qname it = cname r \<and> currentDepth it = depth r)
          \<or> (1 + 1 \<le> depth r \<and> cname r \<notin> ?p)"
      by simp
    then have "2 \<le> depth r"
    proof
      assume "\<exists>it \<in> set new. qname it = cname r \<and> currentDepth it = depth r"
      then obtain it where "it \<in> set new" "qname it = z" using cz by auto
      then have "z \<in> set (map qname new)" by force
      then show ?thesis using zp by simp
    next
      assume "1 + 1 \<le> depth r \<and> cname r \<notin> ?p"
      then show ?thesis by simp
    qed
    then have "depth r = 2" using r(3) by simp
    then show ?thesis using r(1) cz False by auto
  qed
  show ?thesis using Y Z by (rule conjI)
qed

text \<open>
  Claim C4, amended. For every graph, seed concept \<open>c\<close> and depth \<open>m\<close> for which the
  query succeeds: the returned list is ordered by non-decreasing depth; within each depth
  the entries are in the order in which the loop recorded them; no concept name occurs
  twice; and no depth exceeds \<open>m\<close>. Moreover, for \<open>m = 2\<close> and non-empty names \<open>y\<close> and
  \<open>z\<close> of concepts other than the seed, with relations \<open>c related_to y\<close> and
  \<open>y prerequisite_for z\<close>: \<open>y\<close> is returned at depth 1, and \<open>z\<close> is returned at depth 2
  when no \<open>related_to\<close> or \<open>prerequisite_for\<close> relation joins \<open>c\<close> and \<open>z\<close> directly, and
  at depth 1 when one does.
\<close>

theorem findRelatedConcepts_traversal:
  assumes "findRelatedConcepts g c m = Inr res"
  shows "sorted (map depth (relatedConcepts res))
       \<and> (\<forall>k. filter (\<lambda>r. depth r = k) (relatedConcepts res)
               = filter (\<lambda>r. depth r = k) (processQueue g c m [seedItem c] {c} []))
       \<and> distinct (map cname (relatedConcepts res))
       \<and> (\<forall>r \<in> set (relatedConcepts res). depth r \<le> m)
       \<and> (m = 2 \<and> y \<noteq> [] \<and> z \<noteq> [] \<and> c \<noteq> y \<and> c \<noteq> z
            \<and> findEntity g y ''concept'' \<noteq> None \<and> findEntity g z ''concept'' \<noteq> None
            \<and> (\<exists>r \<in> set (relations g). rel_from r = c \<and> rel_to r = y \<and> relationType r = ''related_to'')
            \<and> (\<exists>r \<in> set (relations g). rel_from r = y \<and> rel_to r = z
                    \<and> relationType r = ''prerequisite_for'')
          \<longrightarrow> (\<exists>ry \<in> set (relatedConcepts res). cname ry = y \<and> depth ry = 1)
            \<and> (\<exists>rz \<in> set (relatedConcepts res).
                  cname rz = z \<and> depth rz = (if directlyLinked g c z then 1 else 2)))"
proof -
  let ?F = "processQueue g c m [seedItem c] {c} []"
  note seed = findRelatedConcepts_Inr(1) [OF assms]
  note rel = findRelatedConcepts_Inr(2) [OF assms]
  have s: "sorted (map depth (relatedConcepts res))"
    unfolding rel by (rule sorted_sort_key)
  have st: "\<forall>k. filter (\<lambda>r. depth r = k) (relatedConcepts res) = filter (\<lambda>r. depth r = k) ?F"
    unfolding rel by (simp add: sort_key_stable)
  have "distinct (map cname ?F)"
    by (rule processQueue_distinct) (simp_all add: seedItem_def)
  then have d: "distinct (map cname (relatedConcepts res))"
    unfolding rel by (simp add: distinct_map)
  have "\<forall>r \<in> set ?F. depth r \<le> m"
    by (rule processQueue_depth_bound) simp
  then have b: "\<forall>r \<in> set (relatedConcepts res). depth r \<le> m"
    unfolding rel by simp
  have ch: "(\<exists>ry \<in> set (relatedConcepts res). cname ry = y \<and> depth ry = 1)
            \<and> (\<exists>rz \<in> set (relatedConcepts res).
                  cname rz = z \<and> depth rz = (if directlyLinked g c z then 1 else 2))"
    if h: "m = 2 \<and> y \<noteq> [] \<and> z \<noteq> [] \<and> c \<noteq> y \<and> c \<noteq> z
            \<and> findEntity g y ''concept'' \<noteq> None \<and> findEntity g z ''concept'' \<noteq> None
            \<and> (\<exists>r \<in> set (relations g). rel_from r = c \<and> rel_to r = y \<and> relationType r = ''related_to'')
            \<and> (\<exists>r \<in> set (relations g). rel_from r = y \<and> rel_to r = z
                    \<and> relationType r = ''prerequisite_for'')"
  proof -
    from h obtain ey ez where e: "findEntity g y ''concept'' = Some ey" "findEntity g z ''concept'' = Some ez"
      by auto
    have cy: "directlyLinked g c y" and yz: "directlyLinked g y z"
      using h unfolding directlyLinked_def by blast+
    have m: "m = 2" using h by simp
    from chain_found [OF seed _ _ e(1) _ _ e(2) cy yz] h
    show ?thesis unfolding rel m by simp
  qed
  show ?thesis using s st d b ch by blast
qed

text \<open>
  The chain of limits, derivatives and integrals: derivatives at depth 1, integrals at
  depth 2.
\<close>

theorem findRelatedConcepts_traversal_witness:
  "findRelatedConcepts chainGraph ''Limits'' 2 = Inr chainResult
   \<and> sorted (map depth (relatedConcepts chainResult))
   \<and> distinct (map cname (relatedConcepts chainResult))
   \<and> (\<exists>ry \<in> set (relatedConcepts chainResult). cname ry = ''Derivatives'' \<and> depth ry = 1)
   \<and> (\<exists>rz \<in> set (relatedConcepts chainResult). cname rz = ''Integrals'' \<and> depth rz = 2)"
proof -
  have nl: "\<not> directlyLinked chainGraph ''Limits'' ''Integrals''"
    by (simp add: directlyLinked_def chainGraph_def mkRelation_def)
  have h: "(2::int) = 2 \<and> ''Derivatives'' \<noteq> [] \<and> ''Integrals'' \<noteq> []
        \<and> ''Limits'' \<noteq> ''Derivatives'' \<and> ''Limits'' \<noteq> ''Integrals''
        \<and> findEntity chainGraph ''Derivatives'' ''concept'' \<noteq> None
        \<and> findEntity chainGraph ''Integrals'' ''concept'' \<noteq> None
        \<and> (\<exists>r \<in> set (relations chainGraph). rel_from r = ''Limits'' \<and> rel_to r = ''Derivatives''
               \<and> relationType r = ''related_to'')
        \<and> (\<exists>r \<in> set (relations chainGraph). rel_from r = ''Derivatives'' \<and> rel_to r = ''Integrals''
               \<and> relationType r = ''prerequisite_for'')"
    by (simp add: findEntity_def chainGraph_def mkEntity_def mkRelation_def)
  from findRelatedConcepts_traversal [OF example_chain, of "''Derivatives''" "''Integrals''"] h nl
  show ?thesis using example_chain by simp
qed

end
